theory Spec2Isabelle
  imports Main "HOL-Library.Word" "HOL-Library.Countable"
begin

unbundle bit_operations_syntax

section \<open>JavaScript values\<close>

text \<open>
  A JavaScript string is a sequence of UTF-16 code units; a \<open>Uint8Array\<close> is a list of
  bytes. String literals of the source are written \<open>lit ''...''\<close>. The keys of the secure
  store are always literals in the source and are kept as HOL strings.
\<close>

type_synonym byte = "8 word"
type_synonym jsstring = "16 word list"

definition lit :: "string \<Rightarrow> jsstring" where
  "lit s = map (\<lambda>c. of_nat (of_char c)) s"

text \<open>\<open>String.fromCharCode(b)\<close> for a byte, and \<open>c.charCodeAt(0)\<close> stored into a
  \<open>Uint8Array\<close> (which keeps the low eight bits).\<close>

definition fromCharCode :: "byte \<Rightarrow> 16 word" where
  "fromCharCode b = ucast b"

definition toUint8 :: "16 word \<Rightarrow> byte" where
  "toUint8 c = ucast c"

text \<open>Every \<open>throw\<close> and every rejected promise of the source is a value of this type.
  \<open>Wrapped ctx e\<close> is \<open>new Error(ctx + e.message)\<close>.\<close>

datatype error =
    TypeError
  | SyntaxError
  | RangeError
  | InvalidCharacterError
  | CryptoError
  | StorageError
  | BiometricError
  | Wrapped string error

datatype algorithm = SHA1 | SHA256 | SHA512

datatype json =
    JNull
  | JBool bool
  | JNum int
  | JStr jsstring
  | JArr "json list"
  | JObj "(jsstring \<times> json) list"

instance json :: countable
  by countable_datatype

section \<open>The platform\<close>

text \<open>
  The primitives the repository calls but does not implement are parameters of the
  model: the hash behind \<open>Crypto.digestStringAsync\<close> (\<open>digest\<close>, the raw digest of a
  string), \<open>btoa\<close>/\<open>atob\<close>, \<open>JSON.stringify\<close>/\<open>JSON.parse\<close>, \<open>String.prototype.toUpperCase\<close>,
  \<open>Date.prototype.toISOString\<close>, \<open>encodeURIComponent\<close>, the failure behaviour of \<open>expo-secure-store\<close> (which keys
  make a read, a write or a delete reject), the answer of the biometric prompt
  (\<open>LocalAuthentication.authenticateAsync\<close>: the \<open>success\<close> field, or a rejection), and the
  clock (\<open>Date.now()\<close>, in milliseconds). What the model assumes of them is stated where a
  theorem needs it (\<open>base64_law\<close>, \<open>json_law\<close>, \<open>digest_law\<close> below), never built in.
  \<open>argument_limit\<close> is the number of arguments the engine passes in one call, which bounds
  the array that \<open>f(...array)\<close> can spread (\<open>None\<close>: an engine without such a bound); it
  depends on the engine and on the stack left at the call. \<open>exponent_notation\<close> is the
  text of a number from \<open>10^21\<close> on, which \<open>Number.prototype.toString\<close> writes with an
  exponent.
\<close>

record platform =
  digest :: "algorithm \<Rightarrow> jsstring \<Rightarrow> error + byte list"
  btoa :: "jsstring \<Rightarrow> error + jsstring"
  atob :: "jsstring \<Rightarrow> error + jsstring"
  JSON_stringify :: "json \<Rightarrow> jsstring"
  JSON_parse :: "jsstring \<Rightarrow> error + json"
  toUpperCase :: "jsstring \<Rightarrow> jsstring"
  toISOString :: "int \<Rightarrow> jsstring"
  encodeURIComponent :: "jsstring \<Rightarrow> error + jsstring"
  getItem_fails :: "string \<Rightarrow> bool"
  setItem_fails :: "string \<Rightarrow> bool"
  deleteItem_fails :: "string \<Rightarrow> bool"
  authenticateAsync :: "error + bool"
  Date_now :: int
  argument_limit :: "nat option"
  exponent_notation :: "int \<Rightarrow> jsstring"

text \<open>The mutable world: the contents of the secure store and the stream of bytes that
  \<open>Crypto.getRandomValues\<close> will hand out next.\<close>

record state =
  entries :: "string \<Rightarrow> jsstring option"
  rng :: "nat \<Rightarrow> byte"

subsection \<open>Conversion to string\<close>

text \<open>
  \<open>n.toString()\<close> for a non-negative integer below \<open>10^21\<close>: its decimal digits.
  \<open>Number_toString\<close> is the conversion of any integer. \<open>ToString\<close> is the conversion that
  \<open>JSON.parse\<close>, \<open>atob\<close> and \<open>TextEncoder.encode\<close> apply to an argument that is not a
  string: an array is the texts of its elements joined by commas (nothing for \<open>null\<close>),
  an object is \<open>[object Object]\<close>. \<open>ToString_opt\<close> takes the value of a property, which is
  \<open>undefined\<close> when the property is missing.
\<close>

fun number_toString :: "nat \<Rightarrow> jsstring" where
  "number_toString n =
     (if n < 10 then [of_nat (0x30 + n)]
      else number_toString (n div 10) @ [of_nat (0x30 + n mod 10)])"

definition Number_toString :: "platform \<Rightarrow> int \<Rightarrow> jsstring" where
  "Number_toString pf n =
     (if abs n < 10 ^ 21
      then (if n < 0 then 0x2D # number_toString (nat (- n)) else number_toString (nat n))
      else exponent_notation pf n)"

fun join_comma :: "jsstring list \<Rightarrow> jsstring" where
  "join_comma [] = []"
| "join_comma [x] = x"
| "join_comma (x # y # r) = x @ 0x2C # join_comma (y # r)"

fun ToString :: "platform \<Rightarrow> json \<Rightarrow> jsstring" where
  "ToString pf JNull = lit ''null''"
| "ToString pf (JBool b) = lit (if b then ''true'' else ''false'')"
| "ToString pf (JNum n) = Number_toString pf n"
| "ToString pf (JStr s) = s"
| "ToString pf (JArr xs) = join_comma (map (\<lambda>x. if x = JNull then [] else ToString pf x) xs)"
| "ToString pf (JObj kvs) = lit ''[object Object]''"

definition ToString_opt :: "platform \<Rightarrow> json option \<Rightarrow> jsstring" where
  "ToString_opt pf v = (case v of None \<Rightarrow> lit ''undefined'' | Some j \<Rightarrow> ToString pf j)"

subsection \<open>expo-secure-store\<close>

definition getItemAsync :: "platform \<Rightarrow> string \<Rightarrow> state \<Rightarrow> error + jsstring option" where
  "getItemAsync pf k st = (if getItem_fails pf k then Inl StorageError else Inr (entries st k))"

definition setItemAsync :: "platform \<Rightarrow> string \<Rightarrow> jsstring \<Rightarrow> state \<Rightarrow> (error + unit) \<times> state" where
  "setItemAsync pf k v st =
     (if setItem_fails pf k then (Inl StorageError, st)
      else (Inr (), st\<lparr>entries := (entries st)(k \<mapsto> v)\<rparr>))"

definition deleteItemAsync :: "platform \<Rightarrow> string \<Rightarrow> state \<Rightarrow> (error + unit) \<times> state" where
  "deleteItemAsync pf k st =
     (if deleteItem_fails pf k then (Inl StorageError, st)
      else (Inr (), st\<lparr>entries := (entries st)(k := None)\<rparr>))"

subsection \<open>Crypto.getRandomValues\<close>

definition getRandomValues :: "nat \<Rightarrow> state \<Rightarrow> byte list \<times> state" where
  "getRandomValues n st = (map (rng st) [0..<n], st\<lparr>rng := (\<lambda>i. rng st (i + n))\<rparr>)"

section \<open>TextEncoder and TextDecoder\<close>

text \<open>
  \<open>new TextEncoder().encode(s)\<close> first reads the code units as Unicode scalar values (a
  surrogate pair is one code point, a surrogate on its own becomes U+FFFD) and writes each
  in UTF-8. \<open>new TextDecoder().decode(bytes)\<close> runs the UTF-8 decoder of the Encoding
  standard (an ill-formed sequence gives U+FFFD and the offending byte is read again as a
  lead byte), drops one leading U+FEFF (the decoder is built without \<open>ignoreBOM\<close>) and
  writes the code points back as UTF-16. Code points and bytes are natural numbers here;
  \<open>b AND 0x3F\<close> is written \<open>b mod 0x40\<close>.
\<close>

definition is_high_surrogate :: "nat \<Rightarrow> bool" where
  "is_high_surrogate u = (0xD800 \<le> u \<and> u \<le> 0xDBFF)"

definition is_low_surrogate :: "nat \<Rightarrow> bool" where
  "is_low_surrogate u = (0xDC00 \<le> u \<and> u \<le> 0xDFFF)"

fun code_points :: "nat list \<Rightarrow> nat list" where
  "code_points [] = []"
| "code_points [u] = [if is_high_surrogate u \<or> is_low_surrogate u then 0xFFFD else u]"
| "code_points (u # l # us) =
     (if is_high_surrogate u \<and> is_low_surrogate l
      then (0x10000 + (u - 0xD800) * 0x400 + (l - 0xDC00)) # code_points us
      else (if is_high_surrogate u \<or> is_low_surrogate u then 0xFFFD else u) # code_points (l # us))"

definition utf8_bytes :: "nat \<Rightarrow> nat list" where
  "utf8_bytes cp =
     (if cp < 0x80 then [cp]
      else if cp < 0x800 then [0xC0 + cp div 0x40, 0x80 + cp mod 0x40]
      else if cp < 0x10000 then [0xE0 + cp div 0x1000, 0x80 + cp div 0x40 mod 0x40, 0x80 + cp mod 0x40]
      else [0xF0 + cp div 0x40000, 0x80 + cp div 0x1000 mod 0x40, 0x80 + cp div 0x40 mod 0x40,
            0x80 + cp mod 0x40])"

definition TextEncoder_encode :: "jsstring \<Rightarrow> byte list" where
  "TextEncoder_encode s = map of_nat (concat (map utf8_bytes (code_points (map unat s))))"

record utf8_decoder =
  code_point :: nat
  bytes_seen :: nat
  bytes_needed :: nat
  lower_boundary :: nat
  upper_boundary :: nat

definition utf8_initial :: utf8_decoder where
  "utf8_initial = \<lparr>code_point = 0, bytes_seen = 0, bytes_needed = 0,
                    lower_boundary = 0x80, upper_boundary = 0xBF\<rparr>"

definition utf8_lead :: "nat \<Rightarrow> nat list \<times> utf8_decoder" where
  "utf8_lead b =
     (if b \<le> 0x7F then ([b], utf8_initial)
      else if 0xC2 \<le> b \<and> b \<le> 0xDF
        then ([], utf8_initial\<lparr>bytes_needed := 1, code_point := b mod 0x20\<rparr>)
      else if 0xE0 \<le> b \<and> b \<le> 0xEF
        then ([], utf8_initial\<lparr>bytes_needed := 2, code_point := b mod 0x10,
                lower_boundary := (if b = 0xE0 then 0xA0 else 0x80),
                upper_boundary := (if b = 0xED then 0x9F else 0xBF)\<rparr>)
      else if 0xF0 \<le> b \<and> b \<le> 0xF4
        then ([], utf8_initial\<lparr>bytes_needed := 3, code_point := b mod 0x08,
                lower_boundary := (if b = 0xF0 then 0x90 else 0x80),
                upper_boundary := (if b = 0xF4 then 0x8F else 0xBF)\<rparr>)
      else ([0xFFFD], utf8_initial))"

fun utf8_decode :: "utf8_decoder \<Rightarrow> nat list \<Rightarrow> nat list" where
  "utf8_decode d [] = (if bytes_needed d \<noteq> 0 then [0xFFFD] else [])"
| "utf8_decode d (b # bs) =
     (if bytes_needed d = 0 then
        (case utf8_lead b of (out, d') \<Rightarrow> out @ utf8_decode d' bs)
      else if \<not> (lower_boundary d \<le> b \<and> b \<le> upper_boundary d) then
        (case utf8_lead b of (out, d') \<Rightarrow> 0xFFFD # out @ utf8_decode d' bs)
      else
        (let cp = code_point d * 0x40 + b mod 0x40 in
         if bytes_seen d + 1 \<noteq> bytes_needed d
         then utf8_decode (d\<lparr>code_point := cp, bytes_seen := bytes_seen d + 1,
                              lower_boundary := 0x80, upper_boundary := 0xBF\<rparr>) bs
         else cp # utf8_decode utf8_initial bs))"

definition utf16_units :: "nat \<Rightarrow> nat list" where
  "utf16_units cp =
     (if cp < 0x10000 then [cp]
      else [0xD800 + (cp - 0x10000) div 0x400, 0xDC00 + (cp - 0x10000) mod 0x400])"

definition strip_bom :: "nat list \<Rightarrow> nat list" where
  "strip_bom cps = (case cps of [] \<Rightarrow> [] | c # cs \<Rightarrow> if c = 0xFEFF then cs else cps)"

definition TextDecoder_decode :: "byte list \<Rightarrow> jsstring" where
  "TextDecoder_decode bs =
     map of_nat (concat (map utf16_units (strip_bom (utf8_decode utf8_initial (map unat bs)))))"

definition scalar :: "nat \<Rightarrow> bool" where
  "scalar cp = (cp < 0x110000 \<and> \<not> (0xD800 \<le> cp \<and> cp \<le> 0xDFFF))"

fun wellformed :: "nat list \<Rightarrow> bool" where
  "wellformed [] = True"
| "wellformed [u] = (\<not> is_high_surrogate u \<and> \<not> is_low_surrogate u)"
| "wellformed (u # l # us) =
     (if is_high_surrogate u then is_low_surrogate l \<and> wellformed us
      else \<not> is_low_surrogate u \<and> wellformed (l # us))"

section \<open>CryptoUtils\<close>

subsection \<open>Hexadecimal digits\<close>

text \<open>
  \<open>Crypto.digestStringAsync(algorithm, data, {encoding: HEX})\<close> resolves to the digest
  written as two lower-case hexadecimal digits per byte, or rejects. \<open>hex_digit n\<close> is
  the character of \<open>0123456789abcdef\<close> at index \<open>n\<close>.
\<close>

definition hex_digit :: "nat \<Rightarrow> 16 word" where
  "hex_digit n = of_nat (if n < 10 then 0x30 + n else 0x61 + (n - 10))"

definition toString16 :: "byte \<Rightarrow> jsstring" where
  "toString16 b =
     (if unat b < 16 then [hex_digit (unat b)]
      else [hex_digit (unat b div 16), hex_digit (unat b mod 16)])"

definition padStart :: "nat \<Rightarrow> 16 word \<Rightarrow> jsstring \<Rightarrow> jsstring" where
  "padStart n c s = replicate (n - length s) c @ s"

definition byte_hex :: "byte \<Rightarrow> jsstring" where
  "byte_hex b = padStart 2 0x30 (toString16 b)"

definition digestStringAsync :: "platform \<Rightarrow> algorithm \<Rightarrow> jsstring \<Rightarrow> error + jsstring" where
  "digestStringAsync pf alg s =
     (case digest pf alg s of Inl e \<Rightarrow> Inl e | Inr bs \<Rightarrow> Inr (concat (map byte_hex bs)))"

text \<open>
  \<open>parseInt(chunk, 16)\<close> on a chunk of a hexadecimal digest: the value of the longest
  prefix of hexadecimal digits, \<open>NaN\<close> (\<open>None\<close>) when the chunk does not start with one.
  Stored into a \<open>Uint8Array\<close>, \<open>NaN\<close> becomes 0 and a number is reduced modulo 256.
\<close>

definition hex_value :: "16 word \<Rightarrow> nat option" where
  "hex_value c =
     (let u = unat c in
      if 0x30 \<le> u \<and> u \<le> 0x39 then Some (u - 0x30)
      else if 0x61 \<le> u \<and> u \<le> 0x66 then Some (u - 0x61 + 10)
      else if 0x41 \<le> u \<and> u \<le> 0x46 then Some (u - 0x41 + 10)
      else None)"

fun parseInt16_from :: "nat \<Rightarrow> jsstring \<Rightarrow> nat" where
  "parseInt16_from acc [] = acc"
| "parseInt16_from acc (c # cs) =
     (case hex_value c of None \<Rightarrow> acc | Some v \<Rightarrow> parseInt16_from (acc * 16 + v) cs)"

definition parseInt16 :: "jsstring \<Rightarrow> nat option" where
  "parseInt16 s =
     (case s of [] \<Rightarrow> None
      | c # cs \<Rightarrow> (case hex_value c of None \<Rightarrow> None | Some v \<Rightarrow> Some (parseInt16_from v cs)))"

definition number_toUint8 :: "nat option \<Rightarrow> byte" where
  "number_toUint8 n = (case n of None \<Rightarrow> 0 | Some v \<Rightarrow> of_nat v)"

text \<open>\<open>hash.match(/.{2}/g)\<close>: the successive non-overlapping pairs of characters neither
  of which is a line terminator, or \<open>null\<close> when there is none.\<close>

definition line_terminator :: "16 word \<Rightarrow> bool" where
  "line_terminator c = (unat c \<in> {0x0A, 0x0D, 0x2028, 0x2029})"

fun match_pairs :: "jsstring \<Rightarrow> jsstring list" where
  "match_pairs (a # b # r) =
     (if line_terminator a \<or> line_terminator b then match_pairs (b # r)
      else [a, b] # match_pairs r)"
| "match_pairs r = []"

subsection \<open>deriveKey\<close>

text \<open>
  One pass of the loop of \<open>deriveKey\<close>: the bytes become a string of characters
  (\<open>String.fromCharCode\<close>), the string is hashed to hexadecimal, and the hexadecimal is
  read back pair by pair. \<open>hash.match(...)!\<close> is \<open>null\<close> for a digest with no pair, and
  \<open>.map\<close> on it throws a \<open>TypeError\<close>; the \<open>catch\<close> logs and rethrows.
\<close>

definition derive_step :: "platform \<Rightarrow> byte list \<Rightarrow> error + byte list" where
  "derive_step pf derived =
     (case digestStringAsync pf SHA256 (map fromCharCode derived) of
        Inl e \<Rightarrow> Inl e
      | Inr hash \<Rightarrow>
          (case match_pairs hash of
             [] \<Rightarrow> Inl TypeError
           | p # ps \<Rightarrow> Inr (map (\<lambda>byte. number_toUint8 (parseInt16 byte)) (p # ps))))"

fun derive_loop :: "platform \<Rightarrow> nat \<Rightarrow> byte list \<Rightarrow> error + byte list" where
  "derive_loop pf 0 derived = Inr derived"
| "derive_loop pf (Suc n) derived =
     (case derive_step pf derived of Inl e \<Rightarrow> Inl e | Inr derived' \<Rightarrow> derive_loop pf n derived')"

definition deriveKey :: "platform \<Rightarrow> jsstring \<Rightarrow> jsstring \<Rightarrow> nat \<Rightarrow> nat \<Rightarrow> error + jsstring" where
  "deriveKey pf password salt iterations keyLength =
     (case derive_loop pf iterations (TextEncoder_encode password @ TextEncoder_encode salt) of
        Inl e \<Rightarrow> Inl e
      | Inr derived \<Rightarrow> Inr (concat (map byte_hex (take keyLength derived))))"

definition default_iterations :: nat where
  "default_iterations = 10000"

definition default_keyLength :: nat where
  "default_keyLength = 32"

subsection \<open>Random strings\<close>

definition alphanumeric :: jsstring where
  "alphanumeric = lit ''ABCDEFGHIJKLMNOPQRSTUVWXYZabcdefghijklmnopqrstuvwxyz0123456789''"

definition generateRandomString :: "nat \<Rightarrow> state \<Rightarrow> jsstring \<times> state" where
  "generateRandomString n st =
     (case getRandomValues n st of
        (randomBytes, st') \<Rightarrow>
          (map (\<lambda>b. alphanumeric ! (unat b mod length alphanumeric)) randomBytes, st'))"

definition generateSalt :: "state \<Rightarrow> jsstring \<times> state" where
  "generateSalt st = generateRandomString 32 st"

text \<open>\<open>if (!salt) salt = this.generateSalt()\<close>: a salt that is absent or empty is replaced.\<close>

definition salt_or_fresh :: "jsstring option \<Rightarrow> state \<Rightarrow> jsstring \<times> state" where
  "salt_or_fresh salt st =
     (case salt of None \<Rightarrow> generateSalt st
      | Some s \<Rightarrow> if s = [] then generateSalt st else (s, st))"

subsection \<open>encrypt and decrypt\<close>

text \<open>\<open>bytes.map((byte, i) => byte ^ keyBytes[i % keyBytes.length])\<close>. With an empty key
  the index is \<open>NaN\<close>, the element \<open>undefined\<close>, and \<open>byte ^ undefined\<close> is \<open>byte\<close>.\<close>

definition xor_key :: "byte list \<Rightarrow> byte list \<Rightarrow> byte list" where
  "xor_key keyBytes bytes =
     map (\<lambda>(i, byte). if keyBytes = [] then byte else byte XOR keyBytes ! (i mod length keyBytes))
       (enumerate 0 bytes)"

record EncryptionResult =
  encrypted :: jsstring
  salt :: jsstring

definition EncryptionResult_json :: "EncryptionResult \<Rightarrow> json" where
  "EncryptionResult_json r =
     JObj [(lit ''encrypted'', JStr (encrypted r)), (lit ''salt'', JStr (salt r))]"

text \<open>
  \<open>obj.key\<close> for a parsed value and a key that no prototype defines: the member of an
  object, \<open>undefined\<close> (\<open>None\<close>) for a missing member and for a string, a number, a boolean
  or an array. Reading a property of \<open>null\<close> throws; the callers test for it.
\<close>

definition field :: "jsstring \<Rightarrow> json \<Rightarrow> json option" where
  "field k j = (case j of JObj kvs \<Rightarrow> map_of kvs k | _ \<Rightarrow> None)"

text \<open>
  \<open>String.fromCharCode(...encrypted)\<close> passes every byte as an argument of one call and
  throws a \<open>RangeError\<close> when there are more bytes than the engine passes. \<open>encrypt\<close> has no
  \<open>try\<close>: the error leaves it as it is.
\<close>

definition within_argument_limit :: "platform \<Rightarrow> nat \<Rightarrow> bool" where
  "within_argument_limit pf n = (case argument_limit pf of None \<Rightarrow> True | Some m \<Rightarrow> n \<le> m)"

definition fromCharCode_apply :: "platform \<Rightarrow> byte list \<Rightarrow> error + jsstring" where
  "fromCharCode_apply pf bytes =
     (if within_argument_limit pf (length bytes) then Inr (map fromCharCode bytes)
      else Inl RangeError)"

definition encrypt_with :: "platform \<Rightarrow> jsstring \<Rightarrow> jsstring \<Rightarrow> jsstring \<Rightarrow> error + jsstring" where
  "encrypt_with pf text password salt' =
     (case deriveKey pf password salt' default_iterations default_keyLength of
        Inl e \<Rightarrow> Inl e
      | Inr key \<Rightarrow>
          (let textBytes = TextEncoder_encode text;
               keyBytes = TextEncoder_encode key;
               encryptedBytes = xor_key keyBytes textBytes
           in case fromCharCode_apply pf encryptedBytes of
                Inl e \<Rightarrow> Inl e
              | Inr binary \<Rightarrow>
                  (case btoa pf binary of
                     Inl e \<Rightarrow> Inl e
                   | Inr b64 \<Rightarrow>
                       Inr (JSON_stringify pf
                              (EncryptionResult_json \<lparr>encrypted = b64, salt = salt'\<rparr>)))))"

text \<open>The plaintexts that \<open>encrypt\<close> can take: those whose UTF-8 encoding is within the
  limit (\<open>TextEncoder\<close> and the XOR keep the number of bytes).\<close>

definition encryptable :: "platform \<Rightarrow> jsstring \<Rightarrow> bool" where
  "encryptable pf text = within_argument_limit pf (length (TextEncoder_encode text))"

definition encrypt :: "platform \<Rightarrow> jsstring \<Rightarrow> jsstring \<Rightarrow> jsstring option \<Rightarrow> state \<Rightarrow> (error + jsstring) \<times> state" where
  "encrypt pf text password salt_opt st =
     (case salt_or_fresh salt_opt st of (salt', st') \<Rightarrow> (encrypt_with pf text password salt', st'))"

text \<open>
  \<open>const { encrypted, salt } = JSON.parse(encryptedData)\<close>: destructuring \<open>null\<close> throws a
  \<open>TypeError\<close>, any other value gives its two properties. \<open>deriveKey\<close> reads \<open>salt.length\<close>,
  which throws for \<open>undefined\<close> and \<open>null\<close>, and then encodes the salt, converted to a
  string; \<open>atob\<close> converts its argument to a string as well.
\<close>

definition decrypt_try :: "platform \<Rightarrow> jsstring \<Rightarrow> jsstring \<Rightarrow> error + jsstring" where
  "decrypt_try pf encryptedData password =
     (case JSON_parse pf encryptedData of
        Inl e \<Rightarrow> Inl e
      | Inr j \<Rightarrow>
          if j = JNull then Inl TypeError
          else
            (case field (lit ''salt'') j of
               None \<Rightarrow> Inl TypeError
             | Some salt_value \<Rightarrow>
                 if salt_value = JNull then Inl TypeError
                 else
                   (case deriveKey pf password (ToString pf salt_value)
                           default_iterations default_keyLength of
                      Inl e \<Rightarrow> Inl e
                    | Inr key \<Rightarrow>
                        (case atob pf (ToString_opt pf (field (lit ''encrypted'') j)) of
                           Inl e \<Rightarrow> Inl e
                         | Inr bin \<Rightarrow>
                             (let encryptedBytes = map toUint8 bin;
                                  keyBytes = TextEncoder_encode key;
                                  decrypted = xor_key keyBytes encryptedBytes
                              in Inr (TextDecoder_decode decrypted))))))"

definition decrypt :: "platform \<Rightarrow> jsstring \<Rightarrow> jsstring \<Rightarrow> error + jsstring" where
  "decrypt pf encryptedData password =
     (case decrypt_try pf encryptedData password of
        Inl e \<Rightarrow> Inl (Wrapped ''Decryption failed: '' e)
      | Inr text \<Rightarrow> Inr text)"

subsection \<open>hashPassword and verifyPassword\<close>

record PasswordHashResult =
  hash :: jsstring
  hash_salt :: jsstring

definition hashPassword :: "platform \<Rightarrow> jsstring \<Rightarrow> jsstring option \<Rightarrow> state \<Rightarrow> (error + PasswordHashResult) \<times> state" where
  "hashPassword pf password salt_opt st =
     (case salt_or_fresh salt_opt st of
        (salt', st') \<Rightarrow>
          (case deriveKey pf password salt' 10000 64 of
             Inl e \<Rightarrow> (Inl e, st')
           | Inr h \<Rightarrow> (Inr \<lparr>hash = h, hash_salt = salt'\<rparr>, st')))"

definition verifyPassword :: "platform \<Rightarrow> jsstring \<Rightarrow> jsstring \<Rightarrow> jsstring \<Rightarrow> state \<Rightarrow> (error + bool) \<times> state" where
  "verifyPassword pf password storedHash salt' st =
     (case hashPassword pf password (Some salt') st of
        (Inl e, st') \<Rightarrow> (Inl e, st')
      | (Inr r, st') \<Rightarrow> (Inr (hash r = storedHash), st'))"

section \<open>TOTPManager\<close>

record TOTPConfig =
  secret :: jsstring
  digits :: nat
  period :: nat
  algorithm :: algorithm

text \<open>\<open>Partial<TOTPConfig>\<close>: every field may be missing. \<open>digits\<close> and \<open>period\<close> are
  non-negative integers in the model.\<close>

record PartialTOTPConfig =
  partial_digits :: "nat option"
  partial_period :: "nat option"
  partial_algorithm :: "algorithm option"

record TOTPVerificationResult =
  valid :: bool
  timeStep :: "int option"

definition DEFAULT_DIGITS :: nat where "DEFAULT_DIGITS = 6"
definition DEFAULT_PERIOD :: nat where "DEFAULT_PERIOD = 30"
definition DEFAULT_ALGORITHM :: algorithm where "DEFAULT_ALGORITHM = SHA1"
definition WINDOW_SIZE :: int where "WINDOW_SIZE = 1"

text \<open>\<open>config?.digits || DEFAULT_DIGITS\<close>: the default replaces a missing field and a zero.\<close>

definition number_or :: "nat option \<Rightarrow> nat \<Rightarrow> nat" where
  "number_or v d = (case v of None \<Rightarrow> d | Some n \<Rightarrow> if n = 0 then d else n)"

definition fullConfig :: "jsstring \<Rightarrow> PartialTOTPConfig option \<Rightarrow> TOTPConfig" where
  "fullConfig secret' config =
     \<lparr>secret = secret',
      digits = number_or (Option.bind config partial_digits) DEFAULT_DIGITS,
      period = number_or (Option.bind config partial_period) DEFAULT_PERIOD,
      algorithm = (case Option.bind config partial_algorithm of
                     None \<Rightarrow> DEFAULT_ALGORITHM | Some a \<Rightarrow> a)\<rparr>"

subsection \<open>base32Decode\<close>

definition base32_alphabet :: jsstring where
  "base32_alphabet = lit ''ABCDEFGHIJKLMNOPQRSTUVWXYZ234567''"

fun indexOf :: "'a list \<Rightarrow> 'a \<Rightarrow> int" where
  "indexOf [] x = - 1"
| "indexOf (y # ys) x =
     (if y = x then 0 else (let i = indexOf ys x in if i = - 1 then - 1 else i + 1))"

text \<open>\<open>index.toString(2).padStart(5, '0')\<close>, a bit string, most significant bit first.\<close>

definition bits5 :: "nat \<Rightarrow> bool list" where
  "bits5 n = map (\<lambda>i. odd (n div 2 ^ (4 - i))) [0..<5]"

definition parseInt2 :: "bool list \<Rightarrow> nat" where
  "parseInt2 bs = foldl (\<lambda>acc b. 2 * acc + (if b then 1 else 0)) 0 bs"

fun bits_to_bytes :: "bool list \<Rightarrow> byte list" where
  "bits_to_bytes (b0 # b1 # b2 # b3 # b4 # b5 # b6 # b7 # r) =
     of_nat (parseInt2 [b0, b1, b2, b3, b4, b5, b6, b7]) # bits_to_bytes r"
| "bits_to_bytes r = []"

definition base32Decode :: "platform \<Rightarrow> jsstring \<Rightarrow> byte list" where
  "base32Decode pf encoded =
     (let cleanInput = filter (\<lambda>c. c \<in> set base32_alphabet) (toUpperCase pf encoded);
          bits = concat (map (\<lambda>c. bits5 (nat (indexOf base32_alphabet c))) cleanInput)
      in bits_to_bytes bits)"

subsection \<open>hash and hmac\<close>

text \<open>\<open>hashBytes[i / 2] = parseInt(hashHex.substr(i, 2), 16)\<close> for \<open>i = 0, 2, ...\<close>; the array
  has \<open>hashHex.length / 2\<close> elements, so a last single character is not stored. The
  \<open>default\<close> branch of the \<open>switch\<close> is excluded by the type of \<open>algorithm\<close>.\<close>

fun substr_pairs :: "jsstring \<Rightarrow> jsstring list" where
  "substr_pairs (a # b # r) = [a, b] # substr_pairs r"
| "substr_pairs r = []"

definition hash_bytes :: "platform \<Rightarrow> byte list \<Rightarrow> algorithm \<Rightarrow> error + byte list" where
  "hash_bytes pf data alg =
     (case digestStringAsync pf alg (map fromCharCode data) of
        Inl e \<Rightarrow> Inl e
      | Inr hashHex \<Rightarrow> Inr (map (\<lambda>h. number_toUint8 (parseInt16 h)) (substr_pairs hashHex)))"

text \<open>\<open>paddedKey.set(keyBytes)\<close> throws a \<open>RangeError\<close> when the key does not fit the block.\<close>

definition blockSize :: nat where "blockSize = 64"

definition hmac :: "platform \<Rightarrow> byte list \<Rightarrow> byte list \<Rightarrow> algorithm \<Rightarrow> error + byte list" where
  "hmac pf key data alg =
     (case (if length key > blockSize then hash_bytes pf key alg else Inr key) of
        Inl e \<Rightarrow> Inl e
      | Inr keyBytes \<Rightarrow>
          if length keyBytes > blockSize then Inl RangeError
          else
            (let paddedKey = keyBytes @ replicate (blockSize - length keyBytes) 0;
                 innerPad = map (\<lambda>b. b XOR 0x36) paddedKey;
                 outerPad = map (\<lambda>b. b XOR 0x5c) paddedKey
             in case hash_bytes pf (innerPad @ data) alg of
                  Inl e \<Rightarrow> Inl e
                | Inr innerHash \<Rightarrow> hash_bytes pf (outerPad @ innerHash) alg))"

subsection \<open>generateTOTPForTimeStep\<close>

text \<open>\<open>timeView.setUint32(4, timeStep, false)\<close>: the time step modulo \<open>2^32\<close>, big-endian, in
  the low half of an eight-byte buffer of zeros.\<close>

definition timeBuffer :: "int \<Rightarrow> byte list" where
  "timeBuffer t =
     (let w = (word_of_int t :: 32 word)
      in [0, 0, 0, 0, ucast (drop_bit 24 w), ucast (drop_bit 16 w), ucast (drop_bit 8 w), ucast w])"

text \<open>An element read past the end of the array is \<open>undefined\<close>, and \<open>undefined & m\<close> is 0.\<close>

definition byte_at :: "byte list \<Rightarrow> nat \<Rightarrow> nat" where
  "byte_at bs i = (if i < length bs then unat (bs ! i) else 0)"

definition dynamic_truncation :: "byte list \<Rightarrow> nat" where
  "dynamic_truncation h =
     (let offset = (if h = [] then 0 else unat (last h) mod 16)
      in (byte_at h offset mod 128) * 2 ^ 24 + byte_at h (offset + 1) * 2 ^ 16 +
         byte_at h (offset + 2) * 2 ^ 8 + byte_at h (offset + 3))"

definition generateTOTPForTimeStep :: "platform \<Rightarrow> TOTPConfig \<Rightarrow> int \<Rightarrow> error + jsstring" where
  "generateTOTPForTimeStep pf config t =
     (let secretBytes = base32Decode pf (secret config)
      in case hmac pf secretBytes (timeBuffer t) (algorithm config) of
           Inl e \<Rightarrow> Inl e
         | Inr h \<Rightarrow>
             (let code = dynamic_truncation h mod 10 ^ digits config
              in Inr (padStart (digits config) 0x30 (number_toString code))))"

subsection \<open>generateTOTP and verifyTOTP\<close>

text \<open>\<open>Math.floor(Date.now() / 1000 / period)\<close>.\<close>

definition currentTimeStep :: "platform \<Rightarrow> TOTPConfig \<Rightarrow> int" where
  "currentTimeStep pf config = Date_now pf div (1000 * int (period config))"

definition generateTOTP :: "platform \<Rightarrow> jsstring \<Rightarrow> PartialTOTPConfig option \<Rightarrow> error + jsstring" where
  "generateTOTP pf secret' config =
     (let full = fullConfig secret' config
      in generateTOTPForTimeStep pf full (currentTimeStep pf full))"

definition constantTimeCompare :: "jsstring \<Rightarrow> jsstring \<Rightarrow> bool" where
  "constantTimeCompare a b =
     (if length a \<noteq> length b then False
      else fold (\<lambda>(x, y) result. result OR (x XOR y)) (zip a b) 0 = 0)"

fun verify_window :: "platform \<Rightarrow> TOTPConfig \<Rightarrow> jsstring \<Rightarrow> int list \<Rightarrow> error + TOTPVerificationResult" where
  "verify_window pf config token [] = Inr \<lparr>valid = False, timeStep = None\<rparr>"
| "verify_window pf config token (t # ts) =
     (case generateTOTPForTimeStep pf config t of
        Inl e \<Rightarrow> Inl e
      | Inr expectedToken \<Rightarrow>
          if constantTimeCompare token expectedToken
          then Inr \<lparr>valid = True, timeStep = Some t\<rparr>
          else verify_window pf config token ts)"

definition verifyTOTP :: "platform \<Rightarrow> jsstring \<Rightarrow> jsstring \<Rightarrow> PartialTOTPConfig option \<Rightarrow> error + TOTPVerificationResult" where
  "verifyTOTP pf token secret' config =
     (let full = fullConfig secret' config;
          current = currentTimeStep pf full
      in verify_window pf full token (map (\<lambda>i. current + i) [- WINDOW_SIZE .. WINDOW_SIZE]))"

definition generateSecret :: "nat \<Rightarrow> state \<Rightarrow> jsstring \<times> state" where
  "generateSecret n st =
     (case getRandomValues n st of
        (randomBytes, st') \<Rightarrow>
          (map (\<lambda>b. base32_alphabet ! (unat b mod length base32_alphabet)) randomBytes, st'))"

section \<open>AuthenticationManager\<close>

record AuthCredentials =
  password :: "jsstring option"
  requestBiometric :: bool
  twoFactorCode :: "jsstring option"
  recoveryCode :: "jsstring option"

record AuthResults =
  passwordValid :: bool
  biometricValid :: bool
  twoFactorValid :: bool
  success :: bool
  error_message :: "string option"

record AuthSettings =
  hasPassword :: bool
  biometricEnabled :: bool
  twoFactorEnabled :: bool

definition getDeviceId :: jsstring where
  "getDeviceId = lit ''device_unique_id''"

text \<open>A string test such as \<open>if (credentials.password)\<close> or \<open>!storedHash\<close>: a string that is
  missing or empty is falsy.\<close>

definition truthy :: "jsstring option \<Rightarrow> bool" where
  "truthy v = (case v of None \<Rightarrow> False | Some s \<Rightarrow> s \<noteq> [])"

text \<open>\<open>masterPassword + deviceId + 'TOTP_SECRET_SALT'\<close>. \<open>authenticateUser\<close> passes
  \<open>credentials.password!\<close>, which is \<open>undefined\<close> when no password was supplied; the
  concatenation then starts with the text \<open>undefined\<close>.\<close>

definition key_material :: "jsstring option \<Rightarrow> jsstring \<Rightarrow> string \<Rightarrow> jsstring" where
  "key_material masterPassword deviceId context =
     (case masterPassword of None \<Rightarrow> lit ''undefined'' | Some p \<Rightarrow> p) @ deviceId @ lit context"

subsection \<open>storeMasterPassword\<close>

definition storeMasterPassword_try :: "platform \<Rightarrow> jsstring \<Rightarrow> state \<Rightarrow> (error + unit) \<times> state" where
  "storeMasterPassword_try pf pw st =
     (case hashPassword pf pw None st of
        (Inl e, st1) \<Rightarrow> (Inl e, st1)
      | (Inr r, st1) \<Rightarrow>
          (case setItemAsync pf ''masterPasswordHash'' (hash r) st1 of
             (Inl e, st2) \<Rightarrow> (Inl e, st2)
           | (Inr _, st2) \<Rightarrow>
               (case setItemAsync pf ''passwordSalt'' (hash_salt r) st2 of
                  (Inl e, st3) \<Rightarrow> (Inl e, st3)
                | (Inr _, st3) \<Rightarrow> setItemAsync pf ''hasSetupPassword'' (lit ''true'') st3)))"

definition storeMasterPassword :: "platform \<Rightarrow> jsstring \<Rightarrow> state \<Rightarrow> (error + unit) \<times> state" where
  "storeMasterPassword pf pw st =
     (case storeMasterPassword_try pf pw st of
        (Inl e, st') \<Rightarrow> (Inl (Wrapped ''Failed to store master password: '' e), st')
      | (Inr u, st') \<Rightarrow> (Inr u, st'))"

subsection \<open>setup2FA\<close>

text \<open>\<open>CryptoUtils.generateRecoveryCodes(count)\<close>: \<open>count\<close> strings of eight random
  alphanumeric characters, each put in upper case.\<close>

fun generateRecoveryCodes :: "platform \<Rightarrow> nat \<Rightarrow> state \<Rightarrow> jsstring list \<times> state" where
  "generateRecoveryCodes pf 0 st = ([], st)"
| "generateRecoveryCodes pf (Suc n) st =
     (case generateRandomString 8 st of
        (code, st1) \<Rightarrow>
          (case generateRecoveryCodes pf n st1 of
             (codes, st2) \<Rightarrow> (toUpperCase pf code # codes, st2)))"

definition generateQRCodeData :: "platform \<Rightarrow> jsstring \<Rightarrow> jsstring \<Rightarrow> jsstring \<Rightarrow> PartialTOTPConfig option \<Rightarrow> error + jsstring" where
  "generateQRCodeData pf secret' issuer accountName config =
     (let full = fullConfig secret' config
      in case encodeURIComponent pf issuer of
           Inl e \<Rightarrow> Inl e
         | Inr encodedIssuer \<Rightarrow>
             (case encodeURIComponent pf accountName of
                Inl e \<Rightarrow> Inl e
              | Inr encodedAccount \<Rightarrow>
                  Inr (lit ''otpauth://totp/'' @ encodedIssuer @ lit '':'' @ encodedAccount @
                       lit ''?secret='' @ secret' @ lit ''&issuer='' @ encodedIssuer @
                       lit ''&algorithm='' @
                       lit (case algorithm full of SHA1 \<Rightarrow> ''SHA1'' | SHA256 \<Rightarrow> ''SHA256''
                            | SHA512 \<Rightarrow> ''SHA512'') @
                       lit ''&digits='' @ Number_toString pf (int (digits full)) @
                       lit ''&period='' @ Number_toString pf (int (period full)))))"

definition TwoFAConfig_json :: "platform \<Rightarrow> jsstring \<Rightarrow> jsstring \<Rightarrow> jsstring \<Rightarrow> json" where
  "TwoFAConfig_json pf encryptedSecret encryptedRecoveryCodes deviceId =
     JObj [(lit ''enabled'', JBool True),
           (lit ''encryptedSecret'', JStr encryptedSecret),
           (lit ''encryptedRecoveryCodes'', JArr [JStr encryptedRecoveryCodes]),
           (lit ''algorithm'', JStr (lit ''SHA1'')),
           (lit ''digits'', JNum 6),
           (lit ''period'', JNum 30),
           (lit ''setupDate'', JStr (toISOString pf (Date_now pf))),
           (lit ''deviceId'', JStr deviceId)]"

record TwoFASetupResult =
  config_json :: json
  qrCodeData :: jsstring
  recoveryCodes :: "jsstring list"
  manualEntryKey :: jsstring

definition setup2FA_try :: "platform \<Rightarrow> jsstring \<Rightarrow> jsstring \<Rightarrow> state \<Rightarrow> (error + TwoFASetupResult) \<times> state" where
  "setup2FA_try pf masterPassword deviceId st =
     (case generateSecret 32 st of
        (totpSecret, st1) \<Rightarrow>
          (case encrypt pf totpSecret (key_material (Some masterPassword) deviceId ''TOTP_SECRET_SALT'')
                  None st1 of
             (Inl e, st2) \<Rightarrow> (Inl e, st2)
           | (Inr encryptedSecret, st2) \<Rightarrow>
               (case generateRecoveryCodes pf 8 st2 of
                  (codes, st3) \<Rightarrow>
                    (case encrypt pf (JSON_stringify pf (JArr (map JStr codes)))
                            (key_material (Some masterPassword) deviceId ''RECOVERY_CODE_SALT'')
                            None st3 of
                       (Inl e, st4) \<Rightarrow> (Inl e, st4)
                     | (Inr encryptedRecoveryCodes, st4) \<Rightarrow>
                         (let config = TwoFAConfig_json pf encryptedSecret encryptedRecoveryCodes deviceId
                          in case setItemAsync pf ''twoFactorConfig'' (JSON_stringify pf config) st4 of
                               (Inl e, st5) \<Rightarrow> (Inl e, st5)
                             | (Inr _, st5) \<Rightarrow>
                                 (case generateQRCodeData pf totpSecret (lit ''SecureVault'')
                                         (lit ''User'') None of
                                    Inl e \<Rightarrow> (Inl e, st5)
                                  | Inr qr \<Rightarrow>
                                      (Inr \<lparr>config_json = config, qrCodeData = qr,
                                             recoveryCodes = codes,
                                             manualEntryKey = totpSecret\<rparr>, st5)))))))"

definition setup2FA :: "platform \<Rightarrow> jsstring \<Rightarrow> jsstring \<Rightarrow> state \<Rightarrow> (error + TwoFASetupResult) \<times> state" where
  "setup2FA pf masterPassword deviceId st =
     (case setup2FA_try pf masterPassword deviceId st of
        (Inl e, st') \<Rightarrow> (Inl (Wrapped ''2FA setup failed: '' e), st')
      | (Inr r, st') \<Rightarrow> (Inr r, st'))"

subsection \<open>verifyMasterPassword, verifyBiometric\<close>

definition verifyMasterPassword_try :: "platform \<Rightarrow> jsstring \<Rightarrow> state \<Rightarrow> (error + bool) \<times> state" where
  "verifyMasterPassword_try pf pw st =
     (case getItemAsync pf ''masterPasswordHash'' st of
        Inl e \<Rightarrow> (Inl e, st)
      | Inr storedHash \<Rightarrow>
          (case getItemAsync pf ''passwordSalt'' st of
             Inl e \<Rightarrow> (Inl e, st)
           | Inr salt' \<Rightarrow>
               if \<not> truthy storedHash \<or> \<not> truthy salt' then (Inr False, st)
               else verifyPassword pf pw (the storedHash) (the salt') st))"

text \<open>\<open>try { ... } catch (error) { console.error(...); return false; }\<close>\<close>

definition verifyMasterPassword :: "platform \<Rightarrow> jsstring \<Rightarrow> state \<Rightarrow> bool \<times> state" where
  "verifyMasterPassword pf pw st =
     (case verifyMasterPassword_try pf pw st of
        (Inl e, st') \<Rightarrow> (False, st')
      | (Inr b, st') \<Rightarrow> (b, st'))"

definition verifyBiometric :: "platform \<Rightarrow> bool" where
  "verifyBiometric pf = (case authenticateAsync pf of Inl e \<Rightarrow> False | Inr ok \<Rightarrow> ok)"

subsection \<open>TOTP helpers\<close>

definition verifyTOTPCode :: "platform \<Rightarrow> jsstring \<Rightarrow> jsstring \<Rightarrow> bool" where
  "verifyTOTPCode pf providedCode secret' =
     (case verifyTOTP pf providedCode secret' None of Inl e \<Rightarrow> False | Inr result \<Rightarrow> valid result)"

text \<open>
  \<open>generateTOTPCode(secret, timeStep?)\<close>. The \<open>catch\<close> does not rethrow: it computes a code
  from the clock and the length of the secret (\<open>timeStep || Math.floor(Date.now() / 1000)\<close>,
  so a missing or zero \<open>timeStep\<close> reads the clock).

  The source computes in double-precision numbers. A double holds every integer up to
  \<open>2^53\<close> in size exactly (\<open>safe_integer\<close>); for such an integer \<open>n\<close>,
  \<open>Math.floor(n / 1000)\<close> and \<open>Math.floor(n / 30)\<close> are the integer quotients (the rounding
  of the division is smaller than the distance of the quotient to the next integer), and
  a product that is again such an integer is exact. The \<open>timeStep\<close> argument is a number:
  an integer, a finite number that is not an integer, \<open>NaN\<close> (which, like 0, is falsy and
  reads the clock) or an infinity (\<open>Infinity % 1000000\<close> is \<open>NaN\<close>, written \<open>NaN\<close>). The model
  answers \<open>None\<close> where the time step is not an integer or the clock, the time step or the
  product leaves the range of the exact integers: there the result of the source is not
  the integer formula, and the model gives none.
\<close>

datatype jsnumber = Integer int | Fraction | NaN | Infinite

definition safe_integer :: "int \<Rightarrow> bool" where
  "safe_integer n = (abs n \<le> 2 ^ 53)"

text \<open>\<open>timeStep || Math.floor(Date.now() / 1000)\<close>: whether it reads the clock, and its value
  when that is an integer.\<close>

definition reads_clock :: "jsnumber option \<Rightarrow> bool" where
  "reads_clock timeStep' =
     (timeStep' = None \<or> timeStep' = Some (Integer 0) \<or> timeStep' = Some NaN)"

definition fallback_now :: "platform \<Rightarrow> jsnumber option \<Rightarrow> int option" where
  "fallback_now pf timeStep' =
     (if reads_clock timeStep'
      then (if safe_integer (Date_now pf) then Some (Date_now pf div 1000) else None)
      else (case the timeStep' of
              Integer t \<Rightarrow> if safe_integer t then Some t else None
            | _ \<Rightarrow> None))"

definition fallback_code :: "platform \<Rightarrow> jsstring \<Rightarrow> jsnumber option \<Rightarrow> jsstring option" where
  "fallback_code pf secret' timeStep' =
     (if timeStep' = Some Infinite then Some (lit ''000NaN'')
      else
        (case fallback_now pf timeStep' of
           None \<Rightarrow> None
         | Some now \<Rightarrow>
             (let timeCounter = now div 30;
                  product = timeCounter * int (length secret')
              in if safe_integer product
                 then Some (padStart 6 0x30 (number_toString (nat (abs product) mod 1000000)))
                 else None)))"

text \<open>\<open>generateTOTPCode\<close> never throws; \<open>None\<close> is the answer of \<open>fallback_code\<close> outside the
  range the model covers.\<close>

definition generateTOTPCode :: "platform \<Rightarrow> jsstring \<Rightarrow> jsnumber option \<Rightarrow> jsstring option" where
  "generateTOTPCode pf secret' timeStep' =
     (case generateTOTP pf secret' None of
        Inl e \<Rightarrow> fallback_code pf secret' timeStep'
      | Inr code \<Rightarrow> Some code)"

subsection \<open>verify2FA\<close>

text \<open>\<open>decrypt\<close> called on a member of the parsed configuration, which need not be a
  string: \<open>decrypt\<close> uses its first argument in \<open>JSON.parse\<close> only, which converts it to a
  string.\<close>

definition decrypt_json :: "platform \<Rightarrow> json \<Rightarrow> jsstring \<Rightarrow> error + jsstring" where
  "decrypt_json pf blob pw = decrypt pf (ToString pf blob) pw"

definition verify2FA_try :: "platform \<Rightarrow> jsstring \<Rightarrow> jsstring option \<Rightarrow> state \<Rightarrow> error + bool" where
  "verify2FA_try pf providedCode masterPassword st =
     (case getItemAsync pf ''twoFactorConfig'' st of
        Inl e \<Rightarrow> Inl e
      | Inr twoFactorConfig \<Rightarrow>
          if \<not> truthy twoFactorConfig then Inr False
          else
            (case JSON_parse pf (the twoFactorConfig) of
               Inl e \<Rightarrow> Inl e
             | Inr config \<Rightarrow>
                 if config = JNull then Inl TypeError
                 else
                   (case decrypt pf (ToString_opt pf (field (lit ''encryptedSecret'') config))
                           (key_material masterPassword getDeviceId ''TOTP_SECRET_SALT'') of
                      Inl e \<Rightarrow> Inl e
                    | Inr decryptedSecret \<Rightarrow>
                        Inr (verifyTOTPCode pf providedCode decryptedSecret))))"

definition verify2FA :: "platform \<Rightarrow> jsstring \<Rightarrow> jsstring option \<Rightarrow> state \<Rightarrow> bool" where
  "verify2FA pf providedCode masterPassword st =
     (case verify2FA_try pf providedCode masterPassword st of Inl e \<Rightarrow> False | Inr b \<Rightarrow> b)"

subsection \<open>verifyRecoveryCode\<close>

text \<open>\<open>array.splice(i, 1)\<close> and the assignment \<open>config.encryptedRecoveryCodes = ...\<close>.\<close>

definition splice1 :: "nat \<Rightarrow> 'a list \<Rightarrow> 'a list" where
  "splice1 i xs = take i xs @ drop (Suc i) xs"

definition set_field :: "jsstring \<Rightarrow> json \<Rightarrow> json \<Rightarrow> json" where
  "set_field k v j =
     (case j of
        JObj kvs \<Rightarrow>
          if k \<in> fst ` set kvs then JObj (map (\<lambda>(k', v'). if k' = k then (k', v) else (k', v')) kvs)
          else JObj (kvs @ [(k, v)])
      | _ \<Rightarrow> j)"

text \<open>
  The batch branch: the single element is decrypted and parsed as the JSON list of the
  remaining codes. Everything in it sits in one \<open>try\<close> whose \<open>catch\<close> returns \<open>false\<close>; a
  parsed value that is not an array has no \<open>splice\<close>, and a code that is not in the list
  leaves the branch, which ends in the final \<open>return false\<close>.
\<close>

definition batch_try :: "platform \<Rightarrow> jsstring \<Rightarrow> jsstring \<Rightarrow> json \<Rightarrow> json \<Rightarrow> state \<Rightarrow> (error + bool) \<times> state" where
  "batch_try pf providedCode key config blob st =
     (case decrypt_json pf blob key of
        Inl e \<Rightarrow> (Inl e, st)
      | Inr decryptedJson \<Rightarrow>
          (case JSON_parse pf decryptedJson of
             Inl e \<Rightarrow> (Inl e, st)
           | Inr (JArr codes) \<Rightarrow>
               (let codeIndex = indexOf codes (JStr providedCode)
                in if codeIndex \<noteq> - 1 then
                     (let updatedJson = JSON_stringify pf (JArr (splice1 (nat codeIndex) codes))
                      in case encrypt pf updatedJson key None st of
                           (Inl e, st1) \<Rightarrow> (Inl e, st1)
                         | (Inr reEncrypted, st1) \<Rightarrow>
                             (case setItemAsync pf ''twoFactorConfig''
                                     (JSON_stringify pf
                                        (set_field (lit ''encryptedRecoveryCodes'')
                                           (JArr [JStr reEncrypted]) config)) st1 of
                                (Inl e, st2) \<Rightarrow> (Inl e, st2)
                              | (Inr _, st2) \<Rightarrow> (Inr True, st2)))
                   else (Inr False, st))
           | Inr _ \<Rightarrow> (Inl TypeError, st)))"

text \<open>
  The legacy branch: one encrypted code per element. Each pass has its own \<open>try\<close> whose
  \<open>catch\<close> goes on with the next index; the matching element is spliced out of the array
  before the write, so a write that rejects leaves the loop running on the shortened array.
\<close>

function legacy_loop :: "platform \<Rightarrow> jsstring \<Rightarrow> jsstring \<Rightarrow> json \<Rightarrow> json list \<Rightarrow> nat \<Rightarrow> state \<Rightarrow> bool \<times> state" where
  "legacy_loop pf providedCode key config codes i st =
     (if i < length codes then
        (case decrypt_json pf (codes ! i) key of
           Inl e \<Rightarrow> legacy_loop pf providedCode key config codes (i + 1) st
         | Inr decryptedCode \<Rightarrow>
             if decryptedCode = providedCode then
               (case setItemAsync pf ''twoFactorConfig''
                       (JSON_stringify pf
                          (set_field (lit ''encryptedRecoveryCodes'')
                             (JArr (splice1 i codes)) config)) st of
                  (Inl e, st') \<Rightarrow> legacy_loop pf providedCode key config (splice1 i codes) (i + 1) st'
                | (Inr _, st') \<Rightarrow> (True, st'))
             else legacy_loop pf providedCode key config codes (i + 1) st)
      else (False, st))"
  by pat_completeness auto
termination
  by (relation "measure (\<lambda>(pf, providedCode, key, config, codes, i, st). length codes - i)")
     (auto simp: splice1_def)

text \<open>
  \<open>TwoFAConfig\<close> declares \<open>encryptedRecoveryCodes\<close> as an array. A configuration that is
  \<open>null\<close>, or has no such member, or has \<open>null\<close> there, makes \<open>.length\<close> throw a \<open>TypeError\<close>.
  The model covers configurations of the declared type and gives the same answer for a
  member that is not an array.
\<close>

definition verifyRecoveryCode_try :: "platform \<Rightarrow> jsstring \<Rightarrow> jsstring option \<Rightarrow> state \<Rightarrow> (error + bool) \<times> state" where
  "verifyRecoveryCode_try pf providedCode masterPassword st =
     (case getItemAsync pf ''twoFactorConfig'' st of
        Inl e \<Rightarrow> (Inl e, st)
      | Inr twoFactorConfig \<Rightarrow>
          if \<not> truthy twoFactorConfig then (Inr False, st)
          else
            (case JSON_parse pf (the twoFactorConfig) of
               Inl e \<Rightarrow> (Inl e, st)
             | Inr config \<Rightarrow>
                 (case field (lit ''encryptedRecoveryCodes'') config of
                    Some (JArr codes) \<Rightarrow>
                      (let key = key_material masterPassword getDeviceId ''RECOVERY_CODE_SALT''
                       in if length codes = 1 then
                            (case batch_try pf providedCode key config (codes ! 0) st of
                               (Inl e, st') \<Rightarrow> (Inr False, st')
                             | (Inr b, st') \<Rightarrow> (Inr b, st'))
                          else
                            (case legacy_loop pf providedCode key config codes 0 st of
                               (b, st') \<Rightarrow> (Inr b, st')))
                  | _ \<Rightarrow> (Inl TypeError, st))))"

definition verifyRecoveryCode :: "platform \<Rightarrow> jsstring \<Rightarrow> jsstring option \<Rightarrow> state \<Rightarrow> bool \<times> state" where
  "verifyRecoveryCode pf providedCode masterPassword st =
     (case verifyRecoveryCode_try pf providedCode masterPassword st of
        (Inl e, st') \<Rightarrow> (False, st')
      | (Inr b, st') \<Rightarrow> (b, st'))"

subsection \<open>authenticateUser\<close>

definition getAuthenticationSettings_try :: "platform \<Rightarrow> state \<Rightarrow> error + AuthSettings" where
  "getAuthenticationSettings_try pf st =
     (case getItemAsync pf ''biometricEnabled'' st of
        Inl e \<Rightarrow> Inl e
      | Inr biometric \<Rightarrow>
          (case getItemAsync pf ''hasSetupPassword'' st of
             Inl e \<Rightarrow> Inl e
           | Inr hasPw \<Rightarrow>
               (case getItemAsync pf ''twoFactorConfig'' st of
                  Inl e \<Rightarrow> Inl e
                | Inr twoFactorConfig \<Rightarrow>
                    Inr \<lparr>hasPassword = (hasPw = Some (lit ''true'')),
                         biometricEnabled = (biometric = Some (lit ''true'')),
                         twoFactorEnabled = truthy twoFactorConfig\<rparr>)))"

definition getAuthenticationSettings :: "platform \<Rightarrow> state \<Rightarrow> AuthSettings" where
  "getAuthenticationSettings pf st =
     (case getAuthenticationSettings_try pf st of
        Inl e \<Rightarrow> \<lparr>hasPassword = False, biometricEnabled = False, twoFactorEnabled = False\<rparr>
      | Inr settings \<Rightarrow> settings)"

definition getRequiredAuthMethods :: "AuthSettings \<Rightarrow> string list" where
  "getRequiredAuthMethods authSettings =
     (if hasPassword authSettings then [''password''] else []) @
     (if biometricEnabled authSettings then [''biometric''] else []) @
     (if twoFactorEnabled authSettings then [''twoFactor''] else [])"

fun validateAuthenticationResults :: "AuthResults \<Rightarrow> string list \<Rightarrow> bool" where
  "validateAuthenticationResults results [] = True"
| "validateAuthenticationResults results (method # methods) =
     (if method = ''password'' \<and> \<not> passwordValid results then False
      else if method = ''biometric'' \<and> \<not> biometricValid results then False
      else if method = ''twoFactor'' \<and> \<not> twoFactorValid results then False
      else validateAuthenticationResults results methods)"

text \<open>
  \<open>authenticateUser(credentials)\<close>. Every function it awaits catches its own errors, so
  nothing reaches its own \<open>catch\<close>; the three steps run in the order of the source and
  each failed step returns at once with its message.
\<close>

definition step_2FA :: "platform \<Rightarrow> AuthCredentials \<Rightarrow> state \<Rightarrow> bool \<times> state" where
  "step_2FA pf credentials st =
     (if truthy (twoFactorCode credentials)
      then (verify2FA pf (the (twoFactorCode credentials)) (password credentials) st, st)
      else if truthy (recoveryCode credentials)
      then verifyRecoveryCode pf (the (recoveryCode credentials)) (password credentials) st
      else (False, st))"

definition authenticateUser :: "platform \<Rightarrow> AuthCredentials \<Rightarrow> state \<Rightarrow> AuthResults \<times> state" where
  "authenticateUser pf credentials st =
     (let authSettings = getAuthenticationSettings pf st;
          results = \<lparr>passwordValid = False, biometricValid = False, twoFactorValid = False,
                     success = False, error_message = None\<rparr>;
          (pwValid, st1) = (if truthy (password credentials)
                            then verifyMasterPassword pf (the (password credentials)) st
                            else (False, st));
          results = results\<lparr>passwordValid := pwValid\<rparr>
      in if truthy (password credentials) \<and> \<not> pwValid
         then (results\<lparr>error_message := Some ''Invalid master password''\<rparr>, st1)
         else
           (let bioValid = (if biometricEnabled authSettings \<and> requestBiometric credentials
                            then verifyBiometric pf else False);
                results = results\<lparr>biometricValid := bioValid\<rparr>
            in if biometricEnabled authSettings \<and> requestBiometric credentials \<and> \<not> bioValid
               then (results\<lparr>error_message := Some ''Biometric authentication failed''\<rparr>, st1)
               else if twoFactorEnabled authSettings then
                 (case step_2FA pf credentials st1 of
                    (tfValid, st2) \<Rightarrow>
                      (let results = results\<lparr>twoFactorValid := tfValid\<rparr>
                       in if \<not> tfValid
                          then (results\<lparr>error_message := Some ''Invalid 2FA code''\<rparr>, st2)
                          else (results\<lparr>success := validateAuthenticationResults results
                                           (getRequiredAuthMethods authSettings)\<rparr>, st2)))
               else (results\<lparr>success := validateAuthenticationResults results
                                (getRequiredAuthMethods authSettings)\<rparr>, st1)))"

section \<open>SecurityManager.emergencyWipe\<close>

text \<open>
  \<open>emergencyWipe\<close> (SecurityManager.ts) walks a fixed list of keys and deletes each one
  inside its own \<open>try\<close>/\<open>catch\<close>: a delete that rejects is skipped and the loop goes on.
  \<open>clearSensitiveData\<close> and the alert touch no stored entry.
\<close>

definition emergencyWipe_keys :: "string list" where
  "emergencyWipe_keys =
     [''masterPassword'', ''vaultItems'', ''biometricEnabled'', ''twoFactorEnabled'',
      ''hasSetupPassword'', ''hasCompletedOnboarding'', ''sessionTimeout'', ''authSettings'']"

fun delete_each :: "platform \<Rightarrow> string list \<Rightarrow> state \<Rightarrow> state" where
  "delete_each pf [] st = st"
| "delete_each pf (k # ks) st = delete_each pf ks (snd (deleteItemAsync pf k st))"

definition emergencyWipe :: "platform \<Rightarrow> state \<Rightarrow> state" where
  "emergencyWipe pf st = delete_each pf emergencyWipe_keys st"

section \<open>What is assumed of the platform\<close>

text \<open>
  \<open>digest_sizes\<close>: a SHA-1, SHA-256 or SHA-512 digest has 20, 32 or 64 bytes.
  \<open>digest_total\<close>: the hash primitive does not reject.
  \<open>base64_law\<close>: \<open>btoa\<close> accepts every string of characters below 256 and \<open>atob\<close> gives
  it back.
  \<open>json_law\<close>: \<open>JSON.parse\<close> gives back what \<open>JSON.stringify\<close> wrote, for a value whose
  objects have distinct keys, none of them written as a number (such keys are moved to
  the front by the engine), and whose numbers are integers a double holds exactly.
  \<open>json_text_law\<close>: the text \<open>JSON.stringify\<close> writes is not empty and does not start
  with U+FEFF, and it is well-formed UTF-16 when the strings of the value are.
\<close>

definition digest_size :: "algorithm \<Rightarrow> nat" where
  "digest_size alg = (case alg of SHA1 \<Rightarrow> 20 | SHA256 \<Rightarrow> 32 | SHA512 \<Rightarrow> 64)"

definition digest_sizes :: "platform \<Rightarrow> bool" where
  "digest_sizes pf = (\<forall>alg s h. digest pf alg s = Inr h \<longrightarrow> length h = digest_size alg)"

definition digest_total :: "platform \<Rightarrow> bool" where
  "digest_total pf = (\<forall>alg s. \<exists>h. digest pf alg s = Inr h)"

definition base64_law :: "platform \<Rightarrow> bool" where
  "base64_law pf =
     (\<forall>bs :: byte list. \<exists>b64. btoa pf (map fromCharCode bs) = Inr b64 \<and>
                                atob pf b64 = Inr (map fromCharCode bs))"

definition numeric_key :: "jsstring \<Rightarrow> bool" where
  "numeric_key k = (k \<noteq> [] \<and> (\<forall>c \<in> set k. 0x30 \<le> unat c \<and> unat c \<le> 0x39))"

fun json_wf :: "json \<Rightarrow> bool" where
  "json_wf (JNum n) = (abs n \<le> 2 ^ 53)"
| "json_wf (JArr xs) = (\<forall>x \<in> set xs. json_wf x)"
| "json_wf (JObj kvs) =
     (distinct (map fst kvs) \<and> (\<forall>kv \<in> set kvs. \<not> numeric_key (fst kv) \<and> json_wf (snd kv)))"
| "json_wf j = True"

fun json_strings_wf :: "json \<Rightarrow> bool" where
  "json_strings_wf (JStr s) = wellformed (map unat s)"
| "json_strings_wf (JArr xs) = (\<forall>x \<in> set xs. json_strings_wf x)"
| "json_strings_wf (JObj kvs) =
     (\<forall>kv \<in> set kvs. wellformed (map unat (fst kv)) \<and> json_strings_wf (snd kv))"
| "json_strings_wf j = True"

definition json_law :: "platform \<Rightarrow> bool" where
  "json_law pf = (\<forall>j. json_wf j \<longrightarrow> JSON_parse pf (JSON_stringify pf j) = Inr j)"

definition json_text_law :: "platform \<Rightarrow> bool" where
  "json_text_law pf =
     (\<forall>j. JSON_stringify pf j \<noteq> [] \<and> hd (JSON_stringify pf j) \<noteq> 0xFEFF \<and>
          (json_strings_wf j \<longrightarrow> wellformed (map unat (JSON_stringify pf j))))"

section \<open>The stored batch of recovery codes\<close>

text \<open>
  What the store holds, read the way \<open>verifyRecoveryCode\<close> reads the batch format: the
  parsed \<open>twoFactorConfig\<close>, the single element of its \<open>encryptedRecoveryCodes\<close>, and the list
  of codes that element decrypts to. These functions are not in the source; they name
  the state that the claims about recovery codes speak of.
\<close>

definition stored_config :: "platform \<Rightarrow> state \<Rightarrow> json option" where
  "stored_config pf st =
     (case entries st ''twoFactorConfig'' of
        None \<Rightarrow> None
      | Some text \<Rightarrow>
          if text = [] then None
          else (case JSON_parse pf text of Inl e \<Rightarrow> None | Inr config \<Rightarrow> Some config))"

definition json_string :: "json \<Rightarrow> jsstring option" where
  "json_string j = (case j of JStr s \<Rightarrow> Some s | _ \<Rightarrow> None)"

definition encrypted_codes :: "json \<Rightarrow> json list option" where
  "encrypted_codes config =
     (case field (lit ''encryptedRecoveryCodes'') config of Some (JArr blobs) \<Rightarrow> Some blobs
      | _ \<Rightarrow> None)"

definition decode_batch :: "platform \<Rightarrow> jsstring \<Rightarrow> json \<Rightarrow> jsstring list option" where
  "decode_batch pf key blob =
     (case decrypt_json pf blob key of
        Inl e \<Rightarrow> None
      | Inr plain \<Rightarrow>
          (case JSON_parse pf plain of
             Inr (JArr js) \<Rightarrow> those (map json_string js)
           | _ \<Rightarrow> None))"

definition stored_batch :: "platform \<Rightarrow> jsstring option \<Rightarrow> state \<Rightarrow> jsstring list option" where
  "stored_batch pf masterPassword st =
     (case stored_config pf st of
        None \<Rightarrow> None
      | Some config \<Rightarrow>
          (case encrypted_codes config of
             Some [blob] \<Rightarrow>
               decode_batch pf (key_material masterPassword getDeviceId ''RECOVERY_CODE_SALT'') blob
           | _ \<Rightarrow> None))"

text \<open>
  The authentication settings that the store holds, as \<open>getAuthenticationSettings\<close> reads
  them when no read rejects, and whether its three reads go through. These too are not
  in the source.
\<close>

definition stored_settings :: "state \<Rightarrow> AuthSettings" where
  "stored_settings st =
     \<lparr>hasPassword = (entries st ''hasSetupPassword'' = Some (lit ''true'')),
      biometricEnabled = (entries st ''biometricEnabled'' = Some (lit ''true'')),
      twoFactorEnabled = truthy (entries st ''twoFactorConfig'')\<rparr>"

definition settings_readable :: "platform \<Rightarrow> bool" where
  "settings_readable pf =
     (\<not> getItem_fails pf ''biometricEnabled'' \<and> \<not> getItem_fails pf ''hasSetupPassword'' \<and>
      \<not> getItem_fails pf ''twoFactorConfig'')"

text \<open>\<open>JSON.stringify(recoveryCodes)\<close>, the text of a batch that \<open>encrypt\<close> is given.\<close>

definition batch_text :: "platform \<Rightarrow> jsstring list \<Rightarrow> jsstring" where
  "batch_text pf codes = JSON_stringify pf (JArr (map JStr codes))"

section \<open>A test double of the platform\<close>

text \<open>
  A platform in the manner of the mocks of the repository's own tests
  (\<open>digestStringAsync\<close> mocked by a fixed answer, the secure store by a table): the digest
  repeats the first character of its input, base64 is the identity on binary strings, a
  JSON text is a run of the letter \<open>a\<close> whose length numbers the value, storage never
  fails, the biometric prompt succeeds and the clock stands at 59 seconds. It satisfies
  every assumption above and serves to instantiate the theorems.
\<close>

definition mock_digest :: "algorithm \<Rightarrow> jsstring \<Rightarrow> error + byte list" where
  "mock_digest alg s = Inr (replicate (digest_size alg) (case s of [] \<Rightarrow> 0 | c # cs \<Rightarrow> toUint8 c))"

definition mock_btoa :: "jsstring \<Rightarrow> error + jsstring" where
  "mock_btoa s = (if \<forall>c \<in> set s. unat c < 256 then Inr s else Inl InvalidCharacterError)"

definition mock_stringify :: "json \<Rightarrow> jsstring" where
  "mock_stringify j = replicate (Suc (to_nat j)) 0x61"

definition mock_parse :: "jsstring \<Rightarrow> error + json" where
  "mock_parse s =
     (if s \<noteq> [] \<and> (\<forall>c \<in> set s. c = 0x61) then Inr (from_nat (length s - 1)) else Inl SyntaxError)"

definition mock :: platform where
  "mock = \<lparr>digest = mock_digest, btoa = mock_btoa, atob = Inr,
           JSON_stringify = mock_stringify, JSON_parse = mock_parse,
           toUpperCase = id, toISOString = (\<lambda>t. lit ''1970-01-01T00:00:59.000Z''),
           encodeURIComponent = Inr,
           getItem_fails = (\<lambda>k. False), setItem_fails = (\<lambda>k. False),
           deleteItem_fails = (\<lambda>k. False),
           authenticateAsync = Inr True, Date_now = 59000, argument_limit = None,
           exponent_notation = (\<lambda>n. lit ''1e+21'')\<rparr>"

text \<open>The same platform with a hash primitive that always rejects.\<close>

definition failing_hash :: platform where
  "failing_hash = mock\<lparr>digest := (\<lambda>alg s. Inl CryptoError)\<rparr>"

definition empty_state :: state where
  "empty_state = \<lparr>entries = (\<lambda>k. None), rng = (\<lambda>i. 0)\<rparr>"

text \<open>
  Stores prepared the way the repository's tests prepare them: a \<open>twoFactorConfig\<close> whose
  \<open>encryptedRecoveryCodes\<close> holds one envelope with the whole list of codes (the batch
  format), or one envelope per code (the legacy format). The envelopes are made by
  \<open>encrypt\<close> with a supplied salt.
\<close>

definition envelope :: "platform \<Rightarrow> jsstring \<Rightarrow> jsstring \<Rightarrow> jsstring" where
  "envelope pf plain key = projr (encrypt_with pf plain key (lit ''fixture salt''))"

definition batch_fixture :: "platform \<Rightarrow> jsstring option \<Rightarrow> jsstring list \<Rightarrow> state" where
  "batch_fixture pf masterPassword codes =
     empty_state\<lparr>entries := [''twoFactorConfig'' \<mapsto>
       JSON_stringify pf
         (TwoFAConfig_json pf (lit ''encrypted secret'')
            (envelope pf (JSON_stringify pf (JArr (map JStr codes)))
               (key_material masterPassword getDeviceId ''RECOVERY_CODE_SALT''))
            getDeviceId)]\<rparr>"

definition legacy_config :: "platform \<Rightarrow> jsstring option \<Rightarrow> jsstring list \<Rightarrow> json" where
  "legacy_config pf masterPassword codes =
     JObj [(lit ''enabled'', JBool True),
           (lit ''encryptedSecret'', JStr (lit ''encrypted secret'')),
           (lit ''encryptedRecoveryCodes'',
              JArr (map (\<lambda>code. JStr (envelope pf code
                      (key_material masterPassword getDeviceId ''RECOVERY_CODE_SALT''))) codes)),
           (lit ''deviceId'', JStr getDeviceId)]"

definition legacy_fixture :: "platform \<Rightarrow> jsstring option \<Rightarrow> jsstring list \<Rightarrow> state" where
  "legacy_fixture pf masterPassword codes =
     empty_state\<lparr>entries := [''twoFactorConfig'' \<mapsto>
       JSON_stringify pf (legacy_config pf masterPassword codes)]\<rparr>"

text \<open>
  The state of a device on which the user has gone through the set-up screens: the master
  password stored by \<open>storeMasterPassword\<close>, then 2FA enrolled by \<open>setup2FA\<close>, from an empty
  store; and the code that an authenticator app holding the enrolled secret shows now.
\<close>

definition enrolled :: "platform \<Rightarrow> jsstring \<Rightarrow> (error + TwoFASetupResult) \<times> state" where
  "enrolled pf pw = setup2FA pf pw getDeviceId (snd (storeMasterPassword pf pw empty_state))"

definition current_code :: "platform \<Rightarrow> jsstring \<Rightarrow> jsstring" where
  "current_code pf pw =
     (case fst (enrolled pf pw) of
        Inl e \<Rightarrow> []
      | Inr r \<Rightarrow> (case generateTOTP pf (manualEntryKey r) None of Inl e \<Rightarrow> [] | Inr code \<Rightarrow> code))"



section \<open>Properties\<close>

lemma delete_each_entries:
  "entries (delete_each pf ks st) k =
     (if k \<in> set ks \<and> \<not> deleteItem_fails pf k then None else entries st k)"
  by (induction ks arbitrary: st) (auto simp: deleteItemAsync_def)

lemma delete_each_rng: "rng (delete_each pf ks st) = rng st"
  by (induction ks arbitrary: st) (auto simp: deleteItemAsync_def)

subsection \<open>UTF-8\<close>

lemma mod_shift: "q < n \<Longrightarrow> (k * n + q) mod n = (q::nat)"
  by simp

lemma div_shift: "q < n \<Longrightarrow> (k * n + q) div n = (k::nat)"
  by simp

lemma lead_mod_32: "a < 32 \<Longrightarrow> (192 + a) mod 32 = (a::nat)"
  using mod_shift [of a 32 6] by simp

lemma lead_mod_16: "a < 16 \<Longrightarrow> (224 + a) mod 16 = (a::nat)"
  using mod_shift [of a 16 14] by simp

lemma lead_mod_8: "a < 8 \<Longrightarrow> (240 + a) mod 8 = (a::nat)"
  using mod_shift [of a 8 30] by simp

lemma cont_mod_64: "c < 64 \<Longrightarrow> (128 + c) mod 64 = (c::nat)"
  using mod_shift [of c 64 2] by simp

lemma utf8_decode_ascii:
  "cp < 0x80 \<Longrightarrow> utf8_decode utf8_initial (cp # r) = cp # utf8_decode utf8_initial r"
  by (simp add: utf8_initial_def utf8_lead_def)

lemma utf8_decode_two:
  assumes "2 \<le> a" "a < 32" "c < 64"
  shows "utf8_decode utf8_initial ((0xC0 + a) # (0x80 + c) # r) =
           (a * 0x40 + c) # utf8_decode utf8_initial r"
  using assms by (simp add: utf8_initial_def utf8_lead_def lead_mod_32 cont_mod_64)

lemma utf8_decode_three:
  assumes "a < 16" "b < 64" "c < 64" "a = 0 \<longrightarrow> 32 \<le> b" "a = 13 \<longrightarrow> b < 32"
  shows "utf8_decode utf8_initial ((0xE0 + a) # (0x80 + b) # (0x80 + c) # r) =
           ((a * 0x40 + b) * 0x40 + c) # utf8_decode utf8_initial r"
  using assms by (auto simp add: utf8_initial_def utf8_lead_def lead_mod_16 cont_mod_64)

lemma utf8_decode_four:
  assumes "a < 5" "b < 64" "c < 64" "d < 64" "a = 0 \<longrightarrow> 16 \<le> b" "a = 4 \<longrightarrow> b < 16"
  shows "utf8_decode utf8_initial ((0xF0 + a) # (0x80 + b) # (0x80 + c) # (0x80 + d) # r) =
           (((a * 0x40 + b) * 0x40 + c) * 0x40 + d) # utf8_decode utf8_initial r"
  using assms by (auto simp add: utf8_initial_def utf8_lead_def lead_mod_8 cont_mod_64)

declare utf8_decode.simps [simp del]

lemma utf8_bytes_two:
  assumes "0x80 \<le> cp" "cp < 0x800"
  shows "\<exists>a c. utf8_bytes cp = [0xC0 + a, 0x80 + c] \<and> 2 \<le> a \<and> a < 32 \<and> c < 64 \<and>
           a * 0x40 + c = cp"
proof -
  have "2 \<le> cp div 64" using assms by (simp add: less_eq_div_iff_mult_less_eq)
  moreover have "cp div 64 < 32" using assms by (simp add: less_mult_imp_div_less)
  moreover have "utf8_bytes cp = [0xC0 + cp div 64, 0x80 + cp mod 64]"
    using assms by (simp add: utf8_bytes_def)
  ultimately show ?thesis by simp
qed

lemma utf8_bytes_three:
  assumes "0x800 \<le> cp" "cp < 0x10000" "\<not> (0xD800 \<le> cp \<and> cp \<le> 0xDFFF)"
  shows "\<exists>a b c. utf8_bytes cp = [0xE0 + a, 0x80 + b, 0x80 + c] \<and> a < 16 \<and> b < 64 \<and> c < 64 \<and>
           (a = 0 \<longrightarrow> 32 \<le> b) \<and> (a = 13 \<longrightarrow> b < 32) \<and> (a * 0x40 + b) * 0x40 + c = cp"
proof -
  define q where "q = cp div 64"
  define a where "a = q div 64"
  define b where "b = q mod 64"
  define c where "c = cp mod 64"
  have cp: "cp = q * 64 + c" by (simp add: q_def c_def)
  have q: "q = a * 64 + b" by (simp add: a_def b_def)
  have a_eq: "cp div 0x1000 = a"
    using div_mult2_eq [of cp 64 64] by (simp add: a_def q_def)
  have q_lo: "32 \<le> q" using assms by (simp add: q_def less_eq_div_iff_mult_less_eq)
  have q_hi: "q < 1024" using assms by (simp add: q_def less_mult_imp_div_less)
  have a_hi: "a < 16" using q_hi by (simp add: a_def less_mult_imp_div_less)
  have b_hi: "b < 64" "c < 64" by (simp_all add: b_def c_def)
  have lo: "a = 0 \<longrightarrow> 32 \<le> b" using q q_lo by simp
  have hi: "a = 13 \<longrightarrow> b < 32"
  proof
    assume a13: "a = 13"
    then have "832 \<le> q" using q by simp
    then have "0xD000 \<le> cp" using cp by simp
    then have "cp < 0xD800" using assms(3) a13 q cp b_hi by simp
    then have "q < 864" by (simp add: q_def less_mult_imp_div_less)
    then show "b < 32" using q a13 by simp
  qed
  have bytes: "utf8_bytes cp = [0xE0 + a, 0x80 + b, 0x80 + c]"
    using assms a_eq by (simp add: utf8_bytes_def b_def c_def q_def)
  show ?thesis using bytes a_hi b_hi lo hi cp q by auto
qed

lemma utf8_bytes_four:
  assumes "0x10000 \<le> cp" "cp < 0x110000"
  shows "\<exists>a b c d. utf8_bytes cp = [0xF0 + a, 0x80 + b, 0x80 + c, 0x80 + d] \<and>
           a < 5 \<and> b < 64 \<and> c < 64 \<and> d < 64 \<and> (a = 0 \<longrightarrow> 16 \<le> b) \<and> (a = 4 \<longrightarrow> b < 16) \<and>
           ((a * 0x40 + b) * 0x40 + c) * 0x40 + d = cp"
proof -
  define q where "q = cp div 64"
  define p where "p = q div 64"
  define a where "a = p div 64"
  define b where "b = p mod 64"
  define c where "c = q mod 64"
  define d where "d = cp mod 64"
  have cp: "cp = q * 64 + d" by (simp add: q_def d_def)
  have q: "q = p * 64 + c" by (simp add: p_def c_def)
  have p: "p = a * 64 + b" by (simp add: a_def b_def)
  have p_eq: "cp div 0x1000 = p"
    using div_mult2_eq [of cp 64 64] by (simp add: p_def q_def)
  have a_eq: "cp div 0x40000 = a"
    using div_mult2_eq [of cp 4096 64] p_eq by (simp add: a_def)
  have p_lo: "16 \<le> p" using assms p_eq less_eq_div_iff_mult_less_eq [of 4096 16 cp] by simp
  have p_hi: "p < 272" using assms p_eq less_mult_imp_div_less [of cp 272 4096] by simp
  have a_hi: "a < 5" using p_hi p by simp
  have r: "b < 64" "c < 64" "d < 64" by (simp_all add: b_def c_def d_def)
  have lo: "a = 0 \<longrightarrow> 16 \<le> b" using p p_lo by simp
  have hi: "a = 4 \<longrightarrow> b < 16" using p p_hi by simp
  have bytes: "utf8_bytes cp = [0xF0 + a, 0x80 + b, 0x80 + c, 0x80 + d]"
    using assms a_eq p_eq by (simp add: utf8_bytes_def b_def c_def d_def q_def)
  show ?thesis using bytes a_hi r lo hi cp q p by auto
qed

lemma utf8_decode_bytes:
  assumes "scalar cp"
  shows "utf8_decode utf8_initial (utf8_bytes cp @ r) = cp # utf8_decode utf8_initial r"
proof -
  consider "cp < 0x80" | "0x80 \<le> cp" "cp < 0x800" | "0x800 \<le> cp" "cp < 0x10000" | "0x10000 \<le> cp"
    by linarith
  then show ?thesis
  proof cases
    case 1
    then show ?thesis by (simp add: utf8_bytes_def utf8_decode_ascii)
  next
    case 2
    from utf8_bytes_two [OF 2] obtain a c where
      "utf8_bytes cp = [0xC0 + a, 0x80 + c]" "2 \<le> a" "a < 32" "c < 64" "a * 0x40 + c = cp"
      by blast
    then show ?thesis using utf8_decode_two [of a c r] by simp
  next
    case 3
    have "\<not> (0xD800 \<le> cp \<and> cp \<le> 0xDFFF)" using assms by (simp add: scalar_def)
    from utf8_bytes_three [OF 3 this] obtain a b c where
      "utf8_bytes cp = [0xE0 + a, 0x80 + b, 0x80 + c]" "a < 16" "b < 64" "c < 64"
      "a = 0 \<longrightarrow> 32 \<le> b" "a = 13 \<longrightarrow> b < 32" "(a * 0x40 + b) * 0x40 + c = cp"
      by blast
    then show ?thesis using utf8_decode_three [of a b c r] by simp
  next
    case 4
    have "cp < 0x110000" using assms by (simp add: scalar_def)
    from utf8_bytes_four [OF 4 this] obtain a b c d where
      "utf8_bytes cp = [0xF0 + a, 0x80 + b, 0x80 + c, 0x80 + d]" "a < 5" "b < 64" "c < 64" "d < 64"
      "a = 0 \<longrightarrow> 16 \<le> b" "a = 4 \<longrightarrow> b < 16" "((a * 0x40 + b) * 0x40 + c) * 0x40 + d = cp"
      by blast
    then show ?thesis using utf8_decode_four [of a b c d r] by simp
  qed
qed

lemma utf8_decode_concat:
  "\<forall>cp \<in> set cps. scalar cp \<Longrightarrow>
     utf8_decode utf8_initial (concat (map utf8_bytes cps)) = cps"
proof (induction cps)
  case Nil
  show ?case by (simp add: utf8_decode.simps(1) utf8_initial_def)
next
  case (Cons cp cps)
  then show ?case by (simp add: utf8_decode_bytes)
qed

lemma utf8_bytes_range:
  assumes "scalar cp"
  shows "\<forall>b \<in> set (utf8_bytes cp). b < 256"
proof -
  consider "cp < 0x80" | "0x80 \<le> cp" "cp < 0x800" | "0x800 \<le> cp" "cp < 0x10000" | "0x10000 \<le> cp"
    by linarith
  then show ?thesis
  proof cases
    case 1
    then show ?thesis by (simp add: utf8_bytes_def)
  next
    case 2
    from utf8_bytes_two [OF 2] show ?thesis by auto
  next
    case 3
    have "\<not> (0xD800 \<le> cp \<and> cp \<le> 0xDFFF)" using assms by (simp add: scalar_def)
    from utf8_bytes_three [OF 3 this] show ?thesis by auto
  next
    case 4
    have "cp < 0x110000" using assms by (simp add: scalar_def)
    from utf8_bytes_four [OF 4 this] show ?thesis by auto
  qed
qed

lemma code_points_scalar:
  "\<forall>u \<in> set us. u < 0x10000 \<Longrightarrow> \<forall>cp \<in> set (code_points us). scalar cp"
proof (induction us rule: code_points.induct)
  case 1
  show ?case by simp
next
  case (2 u)
  then show ?case by (auto simp add: scalar_def is_high_surrogate_def is_low_surrogate_def)
next
  case (3 u l us)
  have "is_high_surrogate u \<Longrightarrow> is_low_surrogate l \<Longrightarrow> scalar (0x10000 + (u - 0xD800) * 0x400 + (l - 0xDC00))"
    by (simp add: scalar_def is_high_surrogate_def is_low_surrogate_def; linarith)
  moreover have "\<not> (is_high_surrogate u \<or> is_low_surrogate u) \<Longrightarrow> u < 0x10000 \<Longrightarrow> scalar u"
    by (auto simp add: scalar_def is_high_surrogate_def is_low_surrogate_def)
  moreover have "scalar 0xFFFD" by (simp add: scalar_def)
  ultimately show ?case using 3 by simp
qed

lemma utf16_units_pair:
  assumes "is_high_surrogate u" "is_low_surrogate l"
  shows "utf16_units (0x10000 + (u - 0xD800) * 0x400 + (l - 0xDC00)) = [u, l]"
proof -
  have "l - 0xDC00 < 0x400" "0xDC00 \<le> l" "0xD800 \<le> u"
    using assms by (auto simp: is_high_surrogate_def is_low_surrogate_def)
  then show ?thesis
    using div_shift [of "l - 0xDC00" "0x400" "u - 0xD800"] mod_shift [of "l - 0xDC00" "0x400" "u - 0xD800"]
    by (simp add: utf16_units_def)
qed

lemma unat_of_nat_bytes:
  "\<forall>b \<in> set bs. b < 256 \<Longrightarrow> map unat (map of_nat bs :: byte list) = bs"
  by (induction bs) (simp_all add: unat_of_nat)

lemma utf16_units_code_points:
  "wellformed us \<Longrightarrow> \<forall>u \<in> set us. u < 0x10000 \<Longrightarrow>
     concat (map utf16_units (code_points us)) = us"
proof (induction us rule: code_points.induct)
  case 1
  show ?case by simp
next
  case (2 u)
  then show ?case by (simp add: utf16_units_def)
next
  case (3 u l us)
  show ?case
  proof (cases "is_high_surrogate u")
    case True
    with 3 show ?thesis by (simp add: utf16_units_pair)
  next
    case False
    with 3 show ?thesis by (simp add: utf16_units_def)
  qed
qed


lemma strip_bom_code_points:
  assumes "wellformed us" "us = [] \<or> hd us \<noteq> 0xFEFF"
  shows "strip_bom (code_points us) = code_points us"
proof (cases us rule: code_points.cases)
  case 1
  then show ?thesis by (simp add: strip_bom_def)
next
  case (2 u)
  then show ?thesis using assms by (simp add: strip_bom_def)
next
  case (3 u l us')
  show ?thesis
  proof (cases "is_high_surrogate u")
    case True
    then have "is_low_surrogate l" using assms(1) 3 by simp
    then show ?thesis using True 3 by (simp add: strip_bom_def)
  next
    case False
    then have "\<not> is_low_surrogate u" using assms(1) 3 by simp
    then show ?thesis using False 3 assms(2) by (simp add: strip_bom_def)
  qed
qed

lemma code_units_bounded: "\<forall>u \<in> set (map unat (s::jsstring)). u < 0x10000"
proof -
  have "unat w < 0x10000" for w :: "16 word"
    using unsigned_less [of w, where 'a = nat] by simp
  then show ?thesis by simp
qed

lemma TextDecoder_TextEncoder:
  "TextDecoder_decode (TextEncoder_encode s) =
     map of_nat (concat (map utf16_units (strip_bom (code_points (map unat s)))))"
proof -
  have sc: "\<forall>cp \<in> set (code_points (map unat s)). scalar cp"
    using code_units_bounded by (rule code_points_scalar)
  then have "\<forall>b \<in> set (concat (map utf8_bytes (code_points (map unat s)))). b < 256"
    using utf8_bytes_range by auto
  then have "map unat (TextEncoder_encode s) = concat (map utf8_bytes (code_points (map unat s)))"
    unfolding TextEncoder_encode_def by (rule unat_of_nat_bytes)
  then show ?thesis
    using sc by (simp add: TextDecoder_decode_def utf8_decode_concat)
qed

lemma TextDecoder_TextEncoder_wellformed:
  assumes "wellformed (map unat s)" "s = [] \<or> hd s \<noteq> 0xFEFF"
  shows "TextDecoder_decode (TextEncoder_encode s) = s"
proof -
  have "map unat s = [] \<or> hd (map unat s) \<noteq> 0xFEFF"
  proof (cases s)
    case Nil
    then show ?thesis by simp
  next
    case (Cons c cs)
    then have "c \<noteq> 0xFEFF" using assms(2) by simp
    then have "unat c \<noteq> 0xFEFF" using word_unat_eq_iff [of c "0xFEFF"] by simp
    then show ?thesis using Cons by simp
  qed
  then have "strip_bom (code_points (map unat s)) = code_points (map unat s)"
    using assms(1) strip_bom_code_points by blast
  then have "TextDecoder_decode (TextEncoder_encode s) = map of_nat (map unat s)"
    using utf16_units_code_points [OF assms(1) code_units_bounded] by (simp add: TextDecoder_TextEncoder)
  then show ?thesis by (simp add: comp_def)
qed

subsection \<open>Hexadecimal digests\<close>

lemma unat_hex_digit: "n < 16 \<Longrightarrow> unat (hex_digit n) = (if n < 10 then 0x30 + n else 0x61 + (n - 10))"
  by (simp add: hex_digit_def unat_of_nat)

lemma hex_value_hex_digit: "n < 16 \<Longrightarrow> hex_value (hex_digit n) = Some n"
  by (simp add: hex_value_def unat_hex_digit Let_def)

lemma line_terminator_hex_digit: "n < 16 \<Longrightarrow> \<not> line_terminator (hex_digit n)"
  by (simp add: line_terminator_def unat_hex_digit)

lemma unat_byte_div16: "unat (b::byte) div 16 < 16"
proof -
  have "unat b < 256" using unsigned_less [of b, where 'a = nat] by simp
  then show ?thesis by (simp add: less_mult_imp_div_less)
qed

lemma byte_hex_eq: "byte_hex b = [hex_digit (unat b div 16), hex_digit (unat b mod 16)]"
  by (simp add: byte_hex_def toString16_def padStart_def hex_digit_def)

lemma length_byte_hex: "length (byte_hex b) = 2"
  by (simp add: byte_hex_eq)

lemma parseInt16_byte_hex: "number_toUint8 (parseInt16 (byte_hex b)) = b"
  by (simp add: byte_hex_eq parseInt16_def hex_value_hex_digit unat_byte_div16 number_toUint8_def)

lemma match_pairs_hex: "match_pairs (concat (map byte_hex bs)) = map byte_hex bs"
  by (induction bs) (simp_all add: byte_hex_eq line_terminator_hex_digit unat_byte_div16)

subsection \<open>Key derivation\<close>

lemma derive_step_eq:
  "derive_step pf d =
     (case digest pf SHA256 (map fromCharCode d) of
        Inl e \<Rightarrow> Inl e
      | Inr bs \<Rightarrow> if bs = [] then Inl TypeError else Inr bs)"
proof (cases "digest pf SHA256 (map fromCharCode d)")
  case (Inl e)
  then show ?thesis by (simp add: derive_step_def digestStringAsync_def)
next
  case (Inr bs)
  then have hex: "digestStringAsync pf SHA256 (map fromCharCode d) = Inr (concat (map byte_hex bs))"
    by (simp add: digestStringAsync_def)
  have parsed: "map (\<lambda>byte. number_toUint8 (parseInt16 byte)) (match_pairs (concat (map byte_hex bs))) = bs"
    by (simp add: match_pairs_hex parseInt16_byte_hex comp_def)
  show ?thesis
  proof (cases "match_pairs (concat (map byte_hex bs))")
    case Nil
    then have "bs = []" using parsed by simp
    then show ?thesis using Inr hex by (simp add: derive_step_def)
  next
    case (Cons p ps)
    then have "bs \<noteq> []" using parsed by auto
    then show ?thesis using Inr hex Cons parsed by (simp add: derive_step_def)
  qed
qed

lemma derive_loop_length:
  assumes "digest_sizes pf"
  shows "derive_loop pf (Suc n) d = Inr r \<Longrightarrow> length r = 32"
proof (induction n arbitrary: d)
  case 0
  then show ?case
    using assms by (auto simp: derive_step_eq digest_sizes_def digest_size_def split: sum.splits if_splits)
next
  case (Suc n)
  then show ?case by (auto split: sum.splits)
qed

lemma derive_loop_total:
  assumes "digest_sizes pf" "digest_total pf"
  shows "\<exists>r. derive_loop pf n d = Inr r"
proof (induction n arbitrary: d)
  case 0
  show ?case by simp
next
  case (Suc n)
  obtain h where h: "digest pf SHA256 (map fromCharCode d) = Inr h"
    using assms(2) unfolding digest_total_def by blast
  then have "length h = 32" using assms(1) by (simp add: digest_sizes_def digest_size_def)
  then have "h \<noteq> []" by auto
  then have "derive_step pf d = Inr h" using h by (simp add: derive_step_eq)
  then show ?case using Suc by simp
qed

lemma length_concat_byte_hex: "length (concat (map byte_hex bs)) = 2 * length bs"
  by (induction bs) (simp_all add: length_byte_hex)

lemma deriveKey_length:
  assumes "digest_sizes pf" "1 \<le> iterations" "deriveKey pf pw s iterations keyLength = Inr key"
  shows "length key = 2 * min keyLength 32"
proof -
  obtain n where n: "iterations = Suc n" using assms(2) by (cases iterations) auto
  obtain r where r: "derive_loop pf (Suc n) (TextEncoder_encode pw @ TextEncoder_encode s) = Inr r"
    and key: "key = concat (map byte_hex (take keyLength r))"
    using assms(3) n by (auto simp: deriveKey_def split: sum.splits)
  have "length r = 32" using derive_loop_length [OF assms(1) r] .
  then show ?thesis by (simp add: key length_concat_byte_hex min_def)
qed

lemma deriveKey_total:
  assumes "digest_sizes pf" "digest_total pf"
  shows "\<exists>key. deriveKey pf pw s iterations keyLength = Inr key"
  using derive_loop_total [OF assms, of iterations "TextEncoder_encode pw @ TextEncoder_encode s"]
  by (auto simp: deriveKey_def)

lemma mock_digest_sizes: "digest_sizes mock"
  by (simp add: digest_sizes_def mock_def mock_digest_def)

lemma mock_digest_total: "digest_total mock"
  by (simp add: digest_total_def mock_def mock_digest_def)

subsection \<open>Frame of the store\<close>

lemma getRandomValues_entries: "getRandomValues n st = (bs, st') \<Longrightarrow> entries st' = entries st"
  by (auto simp: getRandomValues_def)

lemma generateRandomString_entries: "generateRandomString n st = (s, st') \<Longrightarrow> entries st' = entries st"
  by (auto simp: generateRandomString_def getRandomValues_def)

lemma salt_or_fresh_entries: "salt_or_fresh so st = (s, st') \<Longrightarrow> entries st' = entries st"
  by (auto simp: salt_or_fresh_def generateSalt_def generateRandomString_def getRandomValues_def
           split: option.splits if_splits)

lemma encrypt_entries: "encrypt pf t pw so st = (r, st') \<Longrightarrow> entries st' = entries st"
  by (auto simp: encrypt_def split: prod.splits dest: salt_or_fresh_entries)

lemma hashPassword_entries: "hashPassword pf pw so st = (r, st') \<Longrightarrow> entries st' = entries st"
  by (auto simp: hashPassword_def split: prod.splits sum.splits dest: salt_or_fresh_entries)

lemma generateSecret_entries: "generateSecret n st = (s, st') \<Longrightarrow> entries st' = entries st"
  by (auto simp: generateSecret_def getRandomValues_def)

lemma generateRecoveryCodes_entries:
  "generateRecoveryCodes pf n st = (cs, st') \<Longrightarrow> entries st' = entries st"
proof (induction n arbitrary: st cs st')
  case 0
  then show ?case by simp
next
  case (Suc n)
  then show ?case
    by (auto split: prod.splits dest: generateRandomString_entries)
qed

lemma storeMasterPassword_entries:
  assumes "storeMasterPassword pf pw st = (Inr u, st1)"
  shows "\<exists>r st'. hashPassword pf pw None st = (Inr r, st') \<and>
           entries st1 = (entries st)(''masterPasswordHash'' \<mapsto> hash r,
                                       ''passwordSalt'' \<mapsto> hash_salt r,
                                       ''hasSetupPassword'' \<mapsto> lit ''true'')"
proof -
  obtain r st' where h: "hashPassword pf pw None st = (Inr r, st')"
    using assms
    by (auto simp: storeMasterPassword_def storeMasterPassword_try_def split: prod.splits sum.splits)
  have e: "entries st' = entries st" using h by (rule hashPassword_entries)
  have "entries st1 = (entries st')(''masterPasswordHash'' \<mapsto> hash r,
                                       ''passwordSalt'' \<mapsto> hash_salt r,
                                       ''hasSetupPassword'' \<mapsto> lit ''true'')"
    using assms h
    by (auto simp: storeMasterPassword_def storeMasterPassword_try_def setItemAsync_def
             split: prod.splits sum.splits if_splits)
  then show ?thesis using h e by simp
qed

lemma setup2FA_entries:
  assumes "setup2FA pf pw dev st = (Inr r, st1)"
  shows "entries st1 = (entries st)(''twoFactorConfig'' \<mapsto> JSON_stringify pf (config_json r))"
  using assms
  by (auto simp: setup2FA_def setup2FA_try_def setItemAsync_def Let_def
           split: prod.splits sum.splits if_splits
           dest!: generateSecret_entries encrypt_entries generateRecoveryCodes_entries)

subsection \<open>Encryption round trip\<close>

lemma xor_key_length: "length (xor_key k bs) = length bs"
  by (simp add: xor_key_def)

lemma xor_key_nth:
  "i < length bs \<Longrightarrow>
     xor_key k bs ! i = (if k = [] then bs ! i else bs ! i XOR k ! (i mod length k))"
  by (simp add: xor_key_def nth_enumerate_eq)

lemma xor_key_involution: "xor_key k (xor_key k bs) = bs"
  by (rule nth_equalityI) (simp_all add: xor_key_length xor_key_nth xor.assoc)

lemma toUint8_fromCharCode: "toUint8 (fromCharCode b) = b"
  by (simp add: toUint8_def fromCharCode_def ucast_up_ucast_id is_up)

lemma map_toUint8_fromCharCode: "map (toUint8 \<circ> fromCharCode) bs = bs"
  by (simp add: comp_def toUint8_fromCharCode)

lemma lit_encrypted_salt: "lit ''encrypted'' \<noteq> lit ''salt''"
  by (simp add: lit_def)

lemma not_numeric_encrypted: "\<not> numeric_key (lit ''encrypted'')" "\<not> numeric_key (lit ''salt'')"
  by (simp_all add: numeric_key_def lit_def)

lemma json_wf_EncryptionResult: "json_wf (EncryptionResult_json r)"
  by (simp add: EncryptionResult_json_def lit_encrypted_salt not_numeric_encrypted)

lemma field_EncryptionResult:
  "field (lit ''salt'') (EncryptionResult_json r) = Some (JStr (salt r))"
  "field (lit ''encrypted'') (EncryptionResult_json r) = Some (JStr (encrypted r))"
  "EncryptionResult_json r \<noteq> JNull"
  by (simp_all add: EncryptionResult_json_def field_def lit_def)

lemma decrypt_json_JStr: "decrypt_json pf (JStr s) pw = decrypt pf s pw"
  by (simp add: decrypt_json_def)

lemma fromCharCode_apply_Inr:
  "fromCharCode_apply pf bs = Inr s \<Longrightarrow> s = map fromCharCode bs"
  by (auto simp: fromCharCode_apply_def split: if_splits)

lemma decrypt_encrypt_with:
  assumes "base64_law pf" "json_law pf" "encrypt_with pf t pw s = Inr blob"
  shows "decrypt pf blob pw = Inr (TextDecoder_decode (TextEncoder_encode t))"
proof -
  obtain key where key: "deriveKey pf pw s default_iterations default_keyLength = Inr key"
    using assms(3) by (auto simp: encrypt_with_def split: sum.splits)
  define cipher where "cipher = xor_key (TextEncoder_encode key) (TextEncoder_encode t)"
  have spread: "fromCharCode_apply pf cipher = Inr (map fromCharCode cipher)"
    using assms(3) key
    by (auto simp: encrypt_with_def cipher_def Let_def fromCharCode_apply_def
             split: sum.splits if_splits)
  obtain b64 where b64: "btoa pf (map fromCharCode cipher) = Inr b64"
    "atob pf b64 = Inr (map fromCharCode cipher)"
    using assms(1) unfolding base64_law_def by blast
  have blob: "blob = JSON_stringify pf (EncryptionResult_json \<lparr>encrypted = b64, salt = s\<rparr>)"
    using assms(3) key spread b64(1) by (simp add: encrypt_with_def cipher_def Let_def)
  have "JSON_parse pf blob = Inr (EncryptionResult_json \<lparr>encrypted = b64, salt = s\<rparr>)"
    using assms(2) json_wf_EncryptionResult unfolding json_law_def blob by blast
  then have "decrypt_try pf blob pw = Inr (TextDecoder_decode (TextEncoder_encode t))"
    using key b64(2)
    by (simp add: decrypt_try_def field_EncryptionResult ToString_opt_def
                  map_toUint8_fromCharCode cipher_def xor_key_involution Let_def)
  then show ?thesis by (simp add: decrypt_def)
qed

lemma encrypt_with_total:
  assumes "digest_sizes pf" "digest_total pf" "base64_law pf" "encryptable pf t"
  shows "\<exists>blob. encrypt_with pf t pw s = Inr blob"
proof -
  obtain key where key: "deriveKey pf pw s default_iterations default_keyLength = Inr key"
    using deriveKey_total [OF assms(1,2)] by blast
  obtain b64 where "btoa pf (map fromCharCode (xor_key (TextEncoder_encode key) (TextEncoder_encode t))) = Inr b64"
    using assms(3) unfolding base64_law_def by blast
  then show ?thesis
    using key assms(4)
    by (simp add: encrypt_with_def Let_def fromCharCode_apply_def encryptable_def xor_key_length)
qed

lemma encrypt_with_too_long:
  assumes "digest_sizes pf" "digest_total pf" "\<not> encryptable pf t"
  shows "encrypt_with pf t pw s = Inl RangeError"
proof -
  obtain key where key: "deriveKey pf pw s default_iterations default_keyLength = Inr key"
    using deriveKey_total [OF assms(1,2)] by blast
  then show ?thesis
    using assms(3)
    by (simp add: encrypt_with_def Let_def fromCharCode_apply_def encryptable_def xor_key_length)
qed

lemma encryptable_unlimited: "argument_limit pf = None \<Longrightarrow> encryptable pf t"
  by (simp add: encryptable_def within_argument_limit_def)

lemma mock_base64_law: "base64_law mock"
proof -
  have "unat (fromCharCode b) < 256" for b :: byte
    using unsigned_less [of b, where 'a = nat]
    by (simp add: fromCharCode_def unsigned_ucast_eq take_bit_nat_eq_self)
  then show ?thesis by (simp add: base64_law_def mock_def mock_btoa_def)
qed

lemma mock_json_law: "json_law mock"
  by (simp add: json_law_def mock_def mock_parse_def mock_stringify_def)

lemma wellformed_no_surrogates:
  "\<forall>u \<in> set us. \<not> is_high_surrogate u \<and> \<not> is_low_surrogate u \<Longrightarrow> wellformed us"
  by (induction us rule: wellformed.induct) simp_all

lemma mock_json_text_law: "json_text_law mock"
proof -
  have "wellformed (map unat (mock_stringify j))" for j
    by (rule wellformed_no_surrogates)
       (simp add: mock_stringify_def is_high_surrogate_def is_low_surrogate_def)
  then show ?thesis by (simp add: json_text_law_def mock_def) (simp add: mock_stringify_def)
qed

subsection \<open>emergencyWipe\<close>

lemma hashPassword_total:
  assumes "digest_sizes pf" "digest_total pf"
  shows "\<exists>r st'. hashPassword pf pw so st = (Inr r, st')"
proof -
  obtain s st' where s: "salt_or_fresh so st = (s, st')" by (cases "salt_or_fresh so st")
  obtain h where "deriveKey pf pw s 10000 64 = Inr h"
    using deriveKey_total [OF assms] by blast
  then show ?thesis using s by (simp add: hashPassword_def)
qed

lemma storeMasterPassword_total:
  assumes "digest_sizes pf" "digest_total pf" "\<forall>k. \<not> setItem_fails pf k"
  shows "\<exists>st1. storeMasterPassword pf pw st = (Inr (), st1)"
proof -
  obtain r st' where "hashPassword pf pw None st = (Inr r, st')"
    using hashPassword_total [OF assms(1,2)] by blast
  then show ?thesis
    using assms(3)
    by (simp add: storeMasterPassword_def storeMasterPassword_try_def setItemAsync_def)
qed

text \<open>
  C3. \<open>emergencyWipe\<close> removes the entries stored under \<open>masterPassword\<close>, \<open>vaultItems\<close>,
  \<open>biometricEnabled\<close>, \<open>twoFactorEnabled\<close>, \<open>hasSetupPassword\<close>, \<open>hasCompletedOnboarding\<close>,
  \<open>sessionTimeout\<close> and \<open>authSettings\<close> (each unless its delete rejects, which the loop
  swallows) and changes no other entry. The entries under \<open>masterPasswordHash\<close>,
  \<open>passwordSalt\<close> and \<open>twoFactorConfig\<close> are therefore the same after the wipe; in
  particular the hash and salt that \<open>storeMasterPassword\<close> has written and the 2FA
  configuration that \<open>setup2FA\<close> has written are still in the store.
\<close>

theorem emergencyWipe_frame:
  "(\<forall>k. entries (emergencyWipe pf st) k =
          (if k \<in> {''masterPassword'', ''vaultItems'', ''biometricEnabled'', ''twoFactorEnabled'',
                    ''hasSetupPassword'', ''hasCompletedOnboarding'', ''sessionTimeout'',
                    ''authSettings''} \<and> \<not> deleteItem_fails pf k
           then None else entries st k)) \<and>
   entries (emergencyWipe pf st) ''masterPasswordHash'' = entries st ''masterPasswordHash'' \<and>
   entries (emergencyWipe pf st) ''passwordSalt'' = entries st ''passwordSalt'' \<and>
   entries (emergencyWipe pf st) ''twoFactorConfig'' = entries st ''twoFactorConfig'' \<and>
   (\<forall>pw st0 u. storeMasterPassword pf pw st0 = (Inr u, st) \<longrightarrow>
      (\<exists>r st'. hashPassword pf pw None st0 = (Inr r, st') \<and>
         entries (emergencyWipe pf st) ''masterPasswordHash'' = Some (hash r) \<and>
         entries (emergencyWipe pf st) ''passwordSalt'' = Some (hash_salt r))) \<and>
   (\<forall>pw dev st0 r. setup2FA pf pw dev st0 = (Inr r, st) \<longrightarrow>
      entries (emergencyWipe pf st) ''twoFactorConfig'' = Some (JSON_stringify pf (config_json r)))"
proof -
  have frame: "entries (emergencyWipe pf st) k =
      (if k \<in> set emergencyWipe_keys \<and> \<not> deleteItem_fails pf k then None else entries st k)" for k
    by (simp add: emergencyWipe_def delete_each_entries)
  have kept: "entries (emergencyWipe pf st) ''masterPasswordHash'' = entries st ''masterPasswordHash''"
    "entries (emergencyWipe pf st) ''passwordSalt'' = entries st ''passwordSalt''"
    "entries (emergencyWipe pf st) ''twoFactorConfig'' = entries st ''twoFactorConfig''"
    by (simp_all add: frame emergencyWipe_keys_def)
  have pw: "\<exists>r st'. hashPassword pf pw None st0 = (Inr r, st') \<and>
         entries (emergencyWipe pf st) ''masterPasswordHash'' = Some (hash r) \<and>
         entries (emergencyWipe pf st) ''passwordSalt'' = Some (hash_salt r)"
    if "storeMasterPassword pf pw st0 = (Inr u, st)" for pw st0 u
    using storeMasterPassword_entries [OF that] by (auto simp: kept)
  have tf: "entries (emergencyWipe pf st) ''twoFactorConfig'' = Some (JSON_stringify pf (config_json r))"
    if "setup2FA pf pw dev st0 = (Inr r, st)" for pw dev st0 r
    using setup2FA_entries [OF that] by (simp add: kept)
  show ?thesis
    using frame kept pw tf by (simp add: emergencyWipe_keys_def)
qed

theorem emergencyWipe_frame_witness:
  "entries (emergencyWipe mock (snd (storeMasterPassword mock (lit ''correct horse'') empty_state)))
     ''masterPasswordHash'' \<noteq> None \<and>
   entries (emergencyWipe mock (snd (storeMasterPassword mock (lit ''correct horse'') empty_state)))
     ''passwordSalt'' \<noteq> None \<and>
   entries (emergencyWipe mock (snd (storeMasterPassword mock (lit ''correct horse'') empty_state)))
     ''hasSetupPassword'' = None"
proof -
  obtain st1 where st1: "storeMasterPassword mock (lit ''correct horse'') empty_state = (Inr (), st1)"
    using storeMasterPassword_total [OF mock_digest_sizes mock_digest_total, of "lit ''correct horse''" empty_state]
    by (auto simp: mock_def)
  note frame = emergencyWipe_frame [of mock st1]
  note written = frame [THEN conjunct2, THEN conjunct2, THEN conjunct2, THEN conjunct2,
      THEN conjunct1, rule_format, OF st1]
  then obtain r :: PasswordHashResult where
    "entries (emergencyWipe mock st1) ''masterPasswordHash'' = Some (hash r)"
    "entries (emergencyWipe mock st1) ''passwordSalt'' = Some (hash_salt r)"
    by blast
  moreover have "\<not> deleteItem_fails mock ''hasSetupPassword''" by (simp add: mock_def)
  with frame [THEN conjunct1, rule_format, of "''hasSetupPassword''"]
  have "entries (emergencyWipe mock st1) ''hasSetupPassword'' = None" by simp
  ultimately show ?thesis using st1 by simp
qed

subsection \<open>deriveKey and the encryption round trip: claims\<close>

text \<open>
  C2. With a hash primitive that does not reject and at least one iteration, \<open>deriveKey\<close>
  returns the first \<open>min keyLength 32\<close> bytes of the last SHA-256 digest, written as two
  hexadecimal digits each: the output is never longer than one digest, and nothing
  extends it. \<open>hashPassword\<close>, which asks for 64 bytes, gets the 64 hexadecimal digits of
  32 bytes.
\<close>

theorem deriveKey_truncates_to_digest:
  assumes "digest_sizes pf" "digest_total pf" "1 \<le> iterations"
  shows "(\<exists>key. deriveKey pf pw s iterations keyLength = Inr key \<and>
            length key = 2 * min keyLength 32) \<and>
         (\<exists>r st'. hashPassword pf pw so st = (Inr r, st') \<and> length (hash r) = 2 * 32)"
proof -
  obtain key where key: "deriveKey pf pw s iterations keyLength = Inr key"
    using deriveKey_total [OF assms(1,2)] by blast
  have k: "length key = 2 * min keyLength 32"
    using deriveKey_length [OF assms(1,3) key] .
  obtain r st' where r: "hashPassword pf pw so st = (Inr r, st')"
    using hashPassword_total [OF assms(1,2)] by blast
  then obtain s' where h: "deriveKey pf pw s' 10000 64 = Inr (hash r)"
    by (auto simp: hashPassword_def split: prod.splits sum.splits)
  have "length (hash r) = 2 * min 64 32"
    by (rule deriveKey_length [OF assms(1) _ h]) simp
  then show ?thesis using key k r by simp
qed

theorem deriveKey_truncates_to_digest_witness:
  "\<exists>key. deriveKey mock (lit ''password'') (lit ''salt'') 10000 64 = Inr key \<and> length key = 64"
  using deriveKey_truncates_to_digest [OF mock_digest_sizes mock_digest_total,
          of 10000 "lit ''password''" "lit ''salt''" 64]
  by simp

lemma salt_or_fresh_cases: "\<exists>s st'. salt_or_fresh so st = (s, st')"
  by (cases "salt_or_fresh so st") simp

text \<open>
  C1 (as amended). For a plaintext that is well-formed UTF-16 (no surrogate on its own)
  and does not begin with U+FEFF, every envelope that \<open>encrypt\<close> returns decrypts, under the
  same password, to exactly that plaintext, the empty string and text outside ASCII
  included. With a hash primitive that does not reject, \<open>encrypt\<close> returns an envelope when
  the UTF-8 encoding of the plaintext has no more bytes than the engine passes as
  arguments of one call, and throws a \<open>RangeError\<close> for a longer plaintext.
\<close>

theorem decrypt_encrypt_wellformed:
  assumes "base64_law pf" "json_law pf"
    and "wellformed (map unat P)" "P = [] \<or> hd P \<noteq> 0xFEFF"
  shows "(\<forall>blob st'. encrypt pf P pw salt_opt st = (Inr blob, st') \<longrightarrow>
            decrypt pf blob pw = Inr P) \<and>
         (digest_sizes pf \<and> digest_total pf \<and> encryptable pf P \<longrightarrow>
            (\<exists>blob st'. encrypt pf P pw salt_opt st = (Inr blob, st'))) \<and>
         (digest_sizes pf \<and> digest_total pf \<and> \<not> encryptable pf P \<longrightarrow>
            fst (encrypt pf P pw salt_opt st) = Inl RangeError)"
proof (intro conjI allI impI)
  fix blob st'
  assume "encrypt pf P pw salt_opt st = (Inr blob, st')"
  then obtain s where "encrypt_with pf P pw s = Inr blob"
    by (auto simp: encrypt_def split: prod.splits)
  then have "decrypt pf blob pw = Inr (TextDecoder_decode (TextEncoder_encode P))"
    using assms(1,2) by (rule decrypt_encrypt_with [rotated 2])
  then show "decrypt pf blob pw = Inr P"
    using assms(3,4) by (simp add: TextDecoder_TextEncoder_wellformed)
next
  assume d: "digest_sizes pf \<and> digest_total pf \<and> encryptable pf P"
  obtain s st' where s: "salt_or_fresh salt_opt st = (s, st')"
    using salt_or_fresh_cases by blast
  obtain blob where "encrypt_with pf P pw s = Inr blob"
    using encrypt_with_total [of pf P pw s] d assms(1) by blast
  then show "\<exists>blob st'. encrypt pf P pw salt_opt st = (Inr blob, st')"
    using s by (simp add: encrypt_def)
next
  assume d: "digest_sizes pf \<and> digest_total pf \<and> \<not> encryptable pf P"
  obtain s st' where s: "salt_or_fresh salt_opt st = (s, st')"
    using salt_or_fresh_cases by blast
  have "encrypt_with pf P pw s = Inl RangeError"
    using encrypt_with_too_long [of pf P pw s] d by blast
  then show "fst (encrypt pf P pw salt_opt st) = Inl RangeError"
    using s by (simp add: encrypt_def)
qed

lemma wellformed_example: "wellformed (map unat [0x61, 0xE9, 0x4E2D, 0xD83D, 0xDE80 :: 16 word])"
  by (simp add: is_high_surrogate_def is_low_surrogate_def)

lemma encode_example:
  "length (TextEncoder_encode [0x61, 0xE9, 0x4E2D, 0xD83D, 0xDE80]) = 10"
  by (simp add: TextEncoder_encode_def utf8_bytes_def is_high_surrogate_def is_low_surrogate_def)

lemma limited_laws:
  "base64_law (mock\<lparr>argument_limit := n\<rparr>)" "json_law (mock\<lparr>argument_limit := n\<rparr>)"
  "digest_sizes (mock\<lparr>argument_limit := n\<rparr>)" "digest_total (mock\<lparr>argument_limit := n\<rparr>)"
  using mock_base64_law mock_json_law mock_digest_sizes mock_digest_total
  by (simp_all add: base64_law_def json_law_def digest_sizes_def digest_total_def)

theorem decrypt_encrypt_wellformed_witness:
  "(\<exists>blob st'. encrypt (mock\<lparr>argument_limit := Some 65536\<rparr>)
                    [0x61, 0xE9, 0x4E2D, 0xD83D, 0xDE80] (lit ''pw'') None empty_state
                  = (Inr blob, st') \<and>
               decrypt (mock\<lparr>argument_limit := Some 65536\<rparr>) blob (lit ''pw'')
                  = Inr [0x61, 0xE9, 0x4E2D, 0xD83D, 0xDE80]) \<and>
   fst (encrypt (mock\<lparr>argument_limit := Some 8\<rparr>)
          [0x61, 0xE9, 0x4E2D, 0xD83D, 0xDE80] (lit ''pw'') None empty_state) = Inl RangeError"
proof -
  have head: "[0x61, 0xE9, 0x4E2D, 0xD83D, 0xDE80 :: 16 word] = [] \<or>
        hd [0x61, 0xE9, 0x4E2D, 0xD83D, 0xDE80 :: 16 word] \<noteq> 0xFEFF" by simp
  note T = decrypt_encrypt_wellformed [OF limited_laws(1,2) wellformed_example head,
      of "Some 65536" "lit ''pw''" None empty_state]
  have fits: "encryptable (mock\<lparr>argument_limit := Some 65536\<rparr>) [0x61, 0xE9, 0x4E2D, 0xD83D, 0xDE80]"
    by (simp add: encryptable_def within_argument_limit_def encode_example)
  from T limited_laws(3,4) fits obtain blob st' where
    e: "encrypt (mock\<lparr>argument_limit := Some 65536\<rparr>)
          [0x61, 0xE9, 0x4E2D, 0xD83D, 0xDE80] (lit ''pw'') None empty_state = (Inr blob, st')"
    by blast
  with T have "decrypt (mock\<lparr>argument_limit := Some 65536\<rparr>) blob (lit ''pw'')
      = Inr [0x61, 0xE9, 0x4E2D, 0xD83D, 0xDE80]" by blast
  with e have one: "\<exists>blob st'. encrypt (mock\<lparr>argument_limit := Some 65536\<rparr>)
                    [0x61, 0xE9, 0x4E2D, 0xD83D, 0xDE80] (lit ''pw'') None empty_state
                  = (Inr blob, st') \<and>
               decrypt (mock\<lparr>argument_limit := Some 65536\<rparr>) blob (lit ''pw'')
                  = Inr [0x61, 0xE9, 0x4E2D, 0xD83D, 0xDE80]" by blast
  note S = decrypt_encrypt_wellformed [OF limited_laws(1,2) wellformed_example head,
      of "Some 8" "lit ''pw''" None empty_state]
  have "\<not> encryptable (mock\<lparr>argument_limit := Some 8\<rparr>) [0x61, 0xE9, 0x4E2D, 0xD83D, 0xDE80]"
    by (simp add: encryptable_def within_argument_limit_def encode_example)
  with S limited_laws(3,4) have "fst (encrypt (mock\<lparr>argument_limit := Some 8\<rparr>)
          [0x61, 0xE9, 0x4E2D, 0xD83D, 0xDE80] (lit ''pw'') None empty_state) = Inl RangeError"
    by blast
  with one show ?thesis by blast
qed

lemma mock_unlimited: "argument_limit mock = None"
  by (simp add: mock_def)

lemma mock_encryptable: "encryptable mock t"
  by (simp add: encryptable_def within_argument_limit_def mock_def)

text \<open>
  The claim as first stated fails on a string that holds a surrogate on its own:
  \<open>TextEncoder\<close> writes U+FFFD for it, and that is what \<open>decrypt\<close> returns.
\<close>

theorem decrypt_encrypt_lone_surrogate:
  "(case encrypt mock [0xD800] (lit ''pw'') None empty_state of
      (Inr blob, st') \<Rightarrow> decrypt mock blob (lit ''pw'') = Inr [0xFFFD] \<and>
                         decrypt mock blob (lit ''pw'') \<noteq> Inr [0xD800]
    | (Inl e, st') \<Rightarrow> False)"
proof -
  obtain s st' where s: "salt_or_fresh None empty_state = (s, st')"
    using salt_or_fresh_cases by blast
  obtain blob where blob: "encrypt_with mock [0xD800] (lit ''pw'') s = Inr blob"
    using encrypt_with_total [OF mock_digest_sizes mock_digest_total mock_base64_law
                                 mock_encryptable] by blast
  have "decrypt mock blob (lit ''pw'') = Inr (TextDecoder_decode (TextEncoder_encode [0xD800]))"
    using decrypt_encrypt_with [OF mock_base64_law mock_json_law blob] .
  also have "TextDecoder_decode (TextEncoder_encode [0xD800]) = [0xFFFD]"
    by (simp add: TextDecoder_TextEncoder strip_bom_def utf16_units_def is_high_surrogate_def)
  finally show ?thesis using s blob by (simp add: encrypt_def)
qed

subsection \<open>TOTP\<close>

lemma xor_eq_0_word: "(x XOR y = 0) = (x = (y :: 16 word))"
proof
  assume "x XOR y = 0"
  then have "(x XOR y) XOR y = 0 XOR y" by simp
  then show "x = y" by (simp add: xor.assoc)
next
  assume "x = y"
  then show "x XOR y = 0" by simp
qed

lemma fold_or_xor_zero:
  "(fold (\<lambda>(x, y) result. result OR (x XOR y)) ps acc = (0 :: 16 word)) =
     (acc = 0 \<and> (\<forall>(x, y) \<in> set ps. x = y))"
  by (induction ps arbitrary: acc) (auto simp: or_eq_0_iff xor_eq_0_word)

lemma constantTimeCompare_iff: "constantTimeCompare a b = (a = b)"
  by (auto simp: constantTimeCompare_def fold_or_xor_zero list_eq_iff_zip_eq)

lemma substr_pairs_hex: "substr_pairs (concat (map byte_hex bs)) = map byte_hex bs"
  by (induction bs) (simp_all add: byte_hex_eq)

lemma hash_bytes_eq: "hash_bytes pf data alg = digest pf alg (map fromCharCode data)"
proof (cases "digest pf alg (map fromCharCode data)")
  case (Inl e)
  then show ?thesis by (simp add: hash_bytes_def digestStringAsync_def)
next
  case (Inr bs)
  have "map (\<lambda>h. number_toUint8 (parseInt16 h)) (map byte_hex bs) = bs"
    by (simp add: parseInt16_byte_hex comp_def)
  then show ?thesis
    using Inr by (simp add: hash_bytes_def digestStringAsync_def substr_pairs_hex del: map_map)
qed

lemma hmac_total:
  assumes "digest_sizes pf" "digest_total pf"
  shows "\<exists>h. hmac pf key data alg = Inr h"
proof -
  have total: "\<exists>h. hash_bytes pf d alg = Inr h" for d
    using assms(2) by (simp add: hash_bytes_eq digest_total_def)
  have size: "length h \<le> blockSize" if "hash_bytes pf d alg = Inr h" for d h
  proof -
    have "length h = digest_size alg"
      using that assms(1) by (simp add: hash_bytes_eq digest_sizes_def)
    then show ?thesis by (cases alg) (simp_all add: digest_size_def blockSize_def)
  qed
  obtain keyBytes where k: "(if length key > blockSize then hash_bytes pf key alg else Inr key) = Inr keyBytes"
    using total [of key] by (cases "length key > blockSize") auto
  then have fits: "length keyBytes \<le> blockSize"
    using size [of key keyBytes] by (cases "length key > blockSize") auto
  define paddedKey where "paddedKey = keyBytes @ replicate (blockSize - length keyBytes) 0"
  obtain innerHash where i: "hash_bytes pf (map (\<lambda>b. b XOR 0x36) paddedKey @ data) alg = Inr innerHash"
    using total by blast
  obtain h where "hash_bytes pf (map (\<lambda>b. b XOR 0x5c) paddedKey @ innerHash) alg = Inr h"
    using total by blast
  then show ?thesis
    using k fits i unfolding hmac_def paddedKey_def by (simp add: Let_def)
qed

lemma generateTOTPForTimeStep_total:
  assumes "digest_sizes pf" "digest_total pf"
  shows "\<exists>code. generateTOTPForTimeStep pf config t = Inr code"
proof -
  obtain h where "hmac pf (base32Decode pf (secret config)) (timeBuffer t) (algorithm config) = Inr h"
    using hmac_total [OF assms] by blast
  then show ?thesis by (simp add: generateTOTPForTimeStep_def Let_def)
qed

lemma window_steps: "map (\<lambda>i. c + i) [- WINDOW_SIZE .. WINDOW_SIZE] = [c - 1, c, c + 1]"
proof -
  have "[- 1 .. (1::int)] = [- 1, 0, 1]"
    by (simp add: upto_rec1)
  then show ?thesis by (simp add: WINDOW_SIZE_def)
qed





lemma verify_window_three:
  assumes "generateTOTPForTimeStep pf config a = Inr ca"
    "generateTOTPForTimeStep pf config b = Inr cb"
    "generateTOTPForTimeStep pf config c = Inr cc"
  shows "verify_window pf config token [a, b, c] =
           Inr \<lparr>valid = (ca = token \<or> cb = token \<or> cc = token),
                timeStep = (if ca = token then Some a else if cb = token then Some b
                            else if cc = token then Some c else None)\<rparr>"
  using assms by (auto simp: constantTimeCompare_iff)


lemma generateTOTP_total:
  assumes "digest_sizes pf" "digest_total pf"
  shows "\<exists>c. generateTOTP pf sec cfg = Inr c"
  using generateTOTPForTimeStep_total [OF assms] by (simp add: generateTOTP_def Let_def)


declare number_toString.simps [simp del]

lemma failing_hash_bytes: "hash_bytes failing_hash d alg = Inl CryptoError"
  by (simp add: hash_bytes_eq failing_hash_def)

lemma failing_hmac: "hmac failing_hash k d alg = Inl CryptoError"
  by (simp add: hmac_def failing_hash_bytes Let_def)

lemma failing_generateTOTP: "generateTOTP failing_hash sec cfg = Inl CryptoError"
  by (simp add: generateTOTP_def generateTOTPForTimeStep_def failing_hmac Let_def)

lemma failing_verifyTOTP: "verifyTOTP failing_hash code sec cfg = Inl CryptoError"
  by (simp add: verifyTOTP_def generateTOTPForTimeStep_def failing_hmac Let_def window_steps)

lemma abs_div_1000: "abs (d div 1000) \<le> abs (d :: int)"
proof (cases "0 \<le> d")
  case True
  have "d div 1000 \<le> d div 1" by (rule zdiv_mono2 [OF True]) simp_all
  moreover have "0 \<le> d div 1000" using True by (simp add: pos_imp_zdiv_nonneg_iff)
  ultimately show ?thesis using True by simp
next
  case False
  then have neg: "d < 0" by simp
  have "d div 1 \<le> d div 1000" by (rule zdiv_mono2_neg [OF neg]) simp_all
  moreover have "d div 1000 < 0" using neg by (simp add: neg_imp_zdiv_neg_iff)
  ultimately show ?thesis using neg by simp
qed

text \<open>
  C4 (as amended). When the TOTP computation throws, \<open>verifyTOTPCode\<close> answers \<open>false\<close>: a
  failed computation is never read as a valid code. \<open>generateTOTPCode\<close> does not propagate
  the error: it returns the six digits of
  \<open>abs(floor(now / 30) * secret.length) mod 1000000\<close>, where \<open>now\<close> is its \<open>timeStep\<close> argument
  or, when that is missing, zero or \<open>NaN\<close>, the clock in seconds. This is for a time step
  that is an integer and as long as the clock (when it is read), \<open>now\<close> and the product are
  integers that a double holds exactly, at most \<open>2^53\<close> in size. For an infinite time step
  it returns \<open>000NaN\<close>.
\<close>

theorem totp_failure_handling:
  "(verifyTOTP pf code sec None = Inl e \<longrightarrow> verifyTOTPCode pf code sec = False) \<and>
   (generateTOTP pf sec None = Inl e \<and> fallback_now pf ts = Some now \<and>
    safe_integer (now div 30 * int (length sec)) \<longrightarrow>
      generateTOTPCode pf sec ts =
        Some (padStart 6 0x30 (number_toString
          (nat \<bar>now div 30 * int (length sec)\<bar> mod 1000000)))) \<and>
   (fallback_now pf ts = Some now \<longrightarrow>
      safe_integer now \<and>
      (if ts = None \<or> ts = Some (Integer 0) \<or> ts = Some NaN
       then safe_integer (Date_now pf) \<and> now = Date_now pf div 1000
       else ts = Some (Integer now))) \<and>
   (generateTOTP pf sec None = Inl e \<and> ts = Some Infinite \<longrightarrow>
      generateTOTPCode pf sec ts = Some (lit ''000NaN''))"
proof -
  have quotient: "safe_integer (d div 1000)" if "safe_integer d" for d
  proof -
    have "abs (d div 1000) \<le> abs d" by (rule abs_div_1000)
    then show ?thesis using that by (simp add: safe_integer_def)
  qed
  have now: "safe_integer now \<and>
      (if ts = None \<or> ts = Some (Integer 0) \<or> ts = Some NaN
       then safe_integer (Date_now pf) \<and> now = Date_now pf div 1000
       else ts = Some (Integer now))"
    if "fallback_now pf ts = Some now"
    using that quotient [of "Date_now pf"]
    by (auto simp: fallback_now_def reads_clock_def split: if_splits jsnumber.splits option.splits)
  have "ts \<noteq> Some Infinite" if "fallback_now pf ts = Some now"
    using that by (auto simp: fallback_now_def reads_clock_def split: if_splits)
  then show ?thesis
    using now
    by (simp add: verifyTOTPCode_def generateTOTPCode_def fallback_code_def Let_def)
qed

theorem totp_failure_handling_witness:
  "verifyTOTPCode failing_hash (lit ''123456'') (lit ''JBSWY3DPEHPK3PXP'') = False \<and>
   generateTOTPCode failing_hash (lit ''JBSWY3DPEHPK3PXP'') (Some (Integer 90)) =
     Some (padStart 6 0x30 (number_toString 48)) \<and>
   generateTOTPCode failing_hash (lit ''JBSWY3DPEHPK3PXP'') (Some Infinite) = Some (lit ''000NaN'')"
proof -
  have "length (lit ''JBSWY3DPEHPK3PXP'') = 16" by (simp add: lit_def)
  moreover have "fallback_now failing_hash (Some (Integer 90)) = Some 90"
    by (simp add: fallback_now_def reads_clock_def safe_integer_def)
  ultimately have "verifyTOTPCode failing_hash (lit ''123456'') (lit ''JBSWY3DPEHPK3PXP'') = False \<and>
      generateTOTPCode failing_hash (lit ''JBSWY3DPEHPK3PXP'') (Some (Integer 90)) =
        Some (padStart 6 0x30 (number_toString 48))"
    using totp_failure_handling [of failing_hash "lit ''123456''" "lit ''JBSWY3DPEHPK3PXP''"
        CryptoError "Some (Integer 90)" 90]
    by (simp add: failing_generateTOTP failing_verifyTOTP safe_integer_def)
  moreover have "generateTOTPCode failing_hash (lit ''JBSWY3DPEHPK3PXP'') (Some Infinite)
      = Some (lit ''000NaN'')"
    using totp_failure_handling [of failing_hash "lit ''123456''" "lit ''JBSWY3DPEHPK3PXP''"
        CryptoError "Some Infinite" 0]
    by (simp add: failing_generateTOTP)
  ultimately show ?thesis by simp
qed

lemma replicate_four: "replicate 4 x = [x, x, x, x]"
  by (simp add: numeral_eq_Suc)

text \<open>
  The claim as first stated fails: with a hash primitive that rejects, \<open>generateTOTP\<close>
  throws, and \<open>generateTOTPCode\<close> returns the code \<open>000016\<close> computed from the clock
  (59 seconds) and the length of the secret (16).
\<close>

theorem generateTOTPCode_falls_back:
  "generateTOTP failing_hash (lit ''JBSWY3DPEHPK3PXP'') None = Inl CryptoError \<and>
   generateTOTPCode failing_hash (lit ''JBSWY3DPEHPK3PXP'') None = Some (lit ''000016'')"
proof -
  have "number_toString 16 = lit ''16''"
    by (simp add: number_toString.simps lit_def)
  then have "fallback_code failing_hash (lit ''JBSWY3DPEHPK3PXP'') None = Some (lit ''000016'')"
    by (simp add: fallback_code_def Let_def failing_hash_def mock_def padStart_def lit_def
                  replicate_four reads_clock_def fallback_now_def safe_integer_def)
  then show ?thesis
    by (simp add: failing_generateTOTP generateTOTPCode_def)
qed

subsection \<open>Password verification\<close>

lemma salt_or_fresh_given: "s \<noteq> [] \<Longrightarrow> salt_or_fresh (Some s) st = (s, st)"
  by (simp add: salt_or_fresh_def)

lemma verifyMasterPassword_try_eq:
  "verifyMasterPassword_try pf pw st =
     (if getItem_fails pf ''masterPasswordHash'' \<or> getItem_fails pf ''passwordSalt''
      then (Inl StorageError, st)
      else case (entries st ''masterPasswordHash'', entries st ''passwordSalt'') of
             (Some h, Some s) \<Rightarrow>
               if h = [] \<or> s = [] then (Inr False, st)
               else (case deriveKey pf pw s 10000 64 of
                       Inl e \<Rightarrow> (Inl e, st)
                     | Inr h' \<Rightarrow> (Inr (h' = h), st))
           | _ \<Rightarrow> (Inr False, st))"
  by (auto simp: verifyMasterPassword_try_def getItemAsync_def truthy_def verifyPassword_def
                 hashPassword_def salt_or_fresh_given
           split: option.splits sum.splits)

lemma verifyMasterPassword_state: "snd (verifyMasterPassword pf pw st) = st"
  by (auto simp: verifyMasterPassword_def verifyMasterPassword_try_eq
           split: option.splits sum.splits)

lemma verifyMasterPassword_iff:
  "fst (verifyMasterPassword pf pw st) =
     (\<not> getItem_fails pf ''masterPasswordHash'' \<and> \<not> getItem_fails pf ''passwordSalt'' \<and>
      (\<exists>h s. entries st ''masterPasswordHash'' = Some h \<and> entries st ''passwordSalt'' = Some s \<and>
             h \<noteq> [] \<and> s \<noteq> [] \<and> deriveKey pf pw s 10000 64 = Inr h))"
  by (auto simp: verifyMasterPassword_def verifyMasterPassword_try_eq
           split: option.splits sum.splits)

text \<open>
  C8. \<open>verifyMasterPassword\<close> always returns a boolean and leaves the state as it was. A
  read of the stored record that rejects makes its body throw a \<open>StorageError\<close>, which the
  \<open>catch\<close> turns into \<open>false\<close>; a hash or a salt that is missing or empty gives \<open>false\<close>; a
  hash primitive that rejects gives \<open>false\<close>; a stored hash that is not the 64
  hexadecimal digits \<open>hashPassword\<close> produces gives \<open>false\<close>. It returns \<open>true\<close> only when
  both reads succeeded and the stored hash is the key derived from the candidate and the
  stored salt. \<open>CryptoUtils.verifyPassword\<close> on a non-empty salt returns (does not throw)
  whenever the hash primitive does not reject, and returns \<open>false\<close> for a stored hash of
  the wrong length.
\<close>

theorem verifyMasterPassword_fails_closed:
  "snd (verifyMasterPassword pf pw st) = st \<and>
   (getItem_fails pf ''masterPasswordHash'' \<or> getItem_fails pf ''passwordSalt'' \<longrightarrow>
      verifyMasterPassword_try pf pw st = (Inl StorageError, st) \<and>
      fst (verifyMasterPassword pf pw st) = False) \<and>
   (\<not> truthy (entries st ''masterPasswordHash'') \<or> \<not> truthy (entries st ''passwordSalt'') \<longrightarrow>
      fst (verifyMasterPassword pf pw st) = False) \<and>
   (\<forall>s e. entries st ''passwordSalt'' = Some s \<and> deriveKey pf pw s 10000 64 = Inl e \<longrightarrow>
      fst (verifyMasterPassword pf pw st) = False) \<and>
   (\<forall>h. digest_sizes pf \<and> entries st ''masterPasswordHash'' = Some h \<and> length h \<noteq> 64 \<longrightarrow>
      fst (verifyMasterPassword pf pw st) = False) \<and>
   (fst (verifyMasterPassword pf pw st) \<longrightarrow>
      \<not> getItem_fails pf ''masterPasswordHash'' \<and> \<not> getItem_fails pf ''passwordSalt'' \<and>
      (\<exists>h s. entries st ''masterPasswordHash'' = Some h \<and> entries st ''passwordSalt'' = Some s \<and>
             deriveKey pf pw s 10000 64 = Inr h)) \<and>
   (\<forall>h s. digest_sizes pf \<and> digest_total pf \<and> s \<noteq> [] \<longrightarrow>
      (\<exists>b. verifyPassword pf pw h s st = (Inr b, st) \<and> (length h \<noteq> 64 \<longrightarrow> b = False)))"
proof -
  have wrong_length: "deriveKey pf pw s 10000 64 \<noteq> Inr h"
    if "digest_sizes pf" "length h \<noteq> 64" for s h
    using deriveKey_length [OF that(1), of 10000 pw s 64 h] that(2) by auto
  have a: "snd (verifyMasterPassword pf pw st) = st"
    by (rule verifyMasterPassword_state)
  have b: "verifyMasterPassword_try pf pw st = (Inl StorageError, st) \<and>
      fst (verifyMasterPassword pf pw st) = False"
    if "getItem_fails pf ''masterPasswordHash'' \<or> getItem_fails pf ''passwordSalt''"
    using that by (auto simp: verifyMasterPassword_def verifyMasterPassword_try_eq)
  have c: "fst (verifyMasterPassword pf pw st) = False"
    if "\<not> truthy (entries st ''masterPasswordHash'') \<or> \<not> truthy (entries st ''passwordSalt'')"
    using that by (auto simp: verifyMasterPassword_iff truthy_def split: option.splits)
  have d: "fst (verifyMasterPassword pf pw st) = False"
    if "entries st ''passwordSalt'' = Some s \<and> deriveKey pf pw s 10000 64 = Inl e" for s e
    using that by (auto simp: verifyMasterPassword_iff)
  have e: "fst (verifyMasterPassword pf pw st) = False"
    if "digest_sizes pf \<and> entries st ''masterPasswordHash'' = Some h \<and> length h \<noteq> 64" for h
    using that wrong_length by (auto simp: verifyMasterPassword_iff)
  have f: "\<not> getItem_fails pf ''masterPasswordHash'' \<and> \<not> getItem_fails pf ''passwordSalt'' \<and>
      (\<exists>h s. entries st ''masterPasswordHash'' = Some h \<and> entries st ''passwordSalt'' = Some s \<and>
             deriveKey pf pw s 10000 64 = Inr h)"
    if "fst (verifyMasterPassword pf pw st)"
    using that by (auto simp: verifyMasterPassword_iff)
  have g: "\<exists>b. verifyPassword pf pw h s st = (Inr b, st) \<and> (length h \<noteq> 64 \<longrightarrow> b = False)"
    if laws: "digest_sizes pf \<and> digest_total pf \<and> s \<noteq> []" for h s
  proof -
    obtain k where k: "deriveKey pf pw s 10000 64 = Inr k"
      using deriveKey_total laws by blast
    then have "length h \<noteq> 64 \<longrightarrow> k \<noteq> h" using wrong_length laws by auto
    then show ?thesis
      using k laws by (simp add: verifyPassword_def hashPassword_def salt_or_fresh_given)
  qed
  show ?thesis using a b c d e f g by blast
qed

theorem verifyMasterPassword_fails_closed_witness:
  "fst (verifyMasterPassword (mock\<lparr>getItem_fails := (\<lambda>k. k = ''masterPasswordHash'')\<rparr>)
          (lit ''pw'') empty_state) = False \<and>
   fst (verifyMasterPassword mock (lit ''pw'') empty_state) = False \<and>
   fst (verifyMasterPassword mock (lit ''pw'')
          (empty_state\<lparr>entries := [''masterPasswordHash'' \<mapsto> lit ''abc'',
                                   ''passwordSalt'' \<mapsto> lit ''salt'']\<rparr>)) = False"
proof -
  note T1 = verifyMasterPassword_fails_closed
      [of "mock\<lparr>getItem_fails := (\<lambda>k. k = ''masterPasswordHash'')\<rparr>" "lit ''pw''" empty_state]
  have "getItem_fails (mock\<lparr>getItem_fails := (\<lambda>k. k = ''masterPasswordHash'')\<rparr>) ''masterPasswordHash''"
    by simp
  with T1 have one: "fst (verifyMasterPassword (mock\<lparr>getItem_fails := (\<lambda>k. k = ''masterPasswordHash'')\<rparr>)
          (lit ''pw'') empty_state) = False" by blast
  note T2 = verifyMasterPassword_fails_closed [of mock "lit ''pw''" empty_state]
  have "\<not> truthy (entries empty_state ''masterPasswordHash'')"
    by (simp add: empty_state_def truthy_def)
  with T2 have two: "fst (verifyMasterPassword mock (lit ''pw'') empty_state) = False" by blast
  define st where "st = empty_state\<lparr>entries := [''masterPasswordHash'' \<mapsto> lit ''abc'',
                                   ''passwordSalt'' \<mapsto> lit ''salt'']\<rparr>"
  note T3 = verifyMasterPassword_fails_closed [of mock "lit ''pw''" st]
  have "entries st ''masterPasswordHash'' = Some (lit ''abc'')" "length (lit ''abc'') \<noteq> 64"
    by (simp_all add: st_def lit_def)
  with T3 mock_digest_sizes have "fst (verifyMasterPassword mock (lit ''pw'') st) = False" by blast
  with one two show ?thesis unfolding st_def by simp
qed

lemma validate_required:
  "validateAuthenticationResults r (getRequiredAuthMethods s) =
     ((hasPassword s \<longrightarrow> passwordValid r) \<and> (biometricEnabled s \<longrightarrow> biometricValid r) \<and>
      (twoFactorEnabled s \<longrightarrow> twoFactorValid r))"
  by (simp add: getRequiredAuthMethods_def)

lemma verifyMasterPassword_pair: "verifyMasterPassword pf pw st = (fst (verifyMasterPassword pf pw st), st)"
  using verifyMasterPassword_state [of pf pw st] by (cases "verifyMasterPassword pf pw st") simp


subsection \<open>Recovery codes\<close>

lemma those_json_string: "(those (map json_string js) = Some codes) = (js = map JStr codes)"
proof (induction js arbitrary: codes)
  case Nil
  then show ?case by auto
next
  case (Cons j js)
  show ?case
  proof (cases j)
    case (JStr s)
    then show ?thesis
      using Cons [of "tl codes"] by (cases codes) (auto simp: json_string_def split: option.splits)
  qed (auto simp: json_string_def)
qed

lemma indexOf_range: "- 1 \<le> indexOf xs x"
  by (induction xs) (auto simp: Let_def)

lemma indexOf_missing: "(indexOf xs x = - 1) = (x \<notin> set xs)"
proof (induction xs)
  case Nil
  show ?case by simp
next
  case (Cons y ys)
  then show ?case using indexOf_range [of ys x] by (auto simp: Let_def)
qed

lemma splice1_Cons: "splice1 (Suc i) (x # xs) = x # splice1 i xs"
  by (simp add: splice1_def)

lemma splice1_indexOf: "x \<in> set xs \<Longrightarrow> splice1 (nat (indexOf xs x)) xs = remove1 x xs"
proof (induction xs)
  case Nil
  then show ?case by simp
next
  case (Cons y ys)
  show ?case
  proof (cases "y = x")
    case True
    then show ?thesis by (simp add: splice1_def)
  next
    case False
    then have mem: "x \<in> set ys" using Cons.prems by simp
    then have "indexOf ys x \<noteq> - 1" by (simp add: indexOf_missing)
    then have "0 \<le> indexOf ys x" using indexOf_range [of ys x] by linarith
    then have "nat (indexOf ys x + 1) = Suc (nat (indexOf ys x))" by simp
    then show ?thesis
      using False Cons.IH [OF mem] \<open>indexOf ys x \<noteq> - 1\<close> by (simp add: Let_def splice1_Cons)
  qed
qed

lemma remove1_map_JStr: "remove1 (JStr c) (map JStr codes) = map JStr (remove1 c codes)"
  by (induction codes) auto

lemma field_set_field:
  "field k j = Some v0 \<Longrightarrow> field k (set_field k v j) = Some v"
proof (cases j)
  case (JObj kvs)
  assume "field k j = Some v0"
  then have "map_of kvs k = Some v0" using JObj by (simp add: field_def)
  then have mem: "k \<in> fst ` set kvs" by (force dest: map_of_SomeD)
  have "map_of (map (\<lambda>(k', v'). if k' = k then (k', v) else (k', v')) kvs) k = Some v"
    using mem by (induction kvs) auto
  then show ?thesis using JObj mem by (simp add: field_def set_field_def)
qed (simp_all add: field_def)

lemma json_wf_set_field:
  assumes "json_wf j" "json_wf v" "field k j = Some v0"
  shows "json_wf (set_field k v j)"
proof (cases j)
  case (JObj kvs)
  have "map_of kvs k = Some v0" using assms(3) JObj by (simp add: field_def)
  then have mem: "k \<in> fst ` set kvs" by (force dest: map_of_SomeD)
  have keys: "map (fst \<circ> (\<lambda>(k', v'). if k' = k then (k', v) else (k', v'))) kvs = map fst kvs"
    by (induction kvs) auto
  have "\<forall>kv \<in> set (map (\<lambda>(k', v'). if k' = k then (k', v) else (k', v')) kvs).
          \<not> numeric_key (fst kv) \<and> json_wf (snd kv)"
    using assms(1,2) JObj by (auto split: if_splits)
  then show ?thesis
    using assms(1) JObj mem by (simp add: set_field_def keys del: set_map)
qed (use assms(3) in \<open>simp_all add: set_field_def field_def\<close>)

lemma stored_config_Some:
  "stored_config pf st = Some config \<Longrightarrow>
     \<exists>text. entries st ''twoFactorConfig'' = Some text \<and> text \<noteq> [] \<and> JSON_parse pf text = Inr config"
  by (auto simp: stored_config_def split: option.splits if_splits sum.splits)

lemma encrypted_codes_Some:
  "encrypted_codes config = Some blobs \<Longrightarrow>
     field (lit ''encryptedRecoveryCodes'') config = Some (JArr blobs)"
  by (auto simp: encrypted_codes_def split: option.splits json.splits)

lemma verifyRecoveryCode_batch:
  assumes "stored_config pf st = Some config" "encrypted_codes config = Some [blob]"
    "\<not> getItem_fails pf ''twoFactorConfig''"
  shows "verifyRecoveryCode pf c mp st =
           (case batch_try pf c (key_material mp getDeviceId ''RECOVERY_CODE_SALT'') config blob st of
              (Inl e, st') \<Rightarrow> (False, st')
            | (Inr b, st') \<Rightarrow> (b, st'))"
proof -
  obtain doc where t: "entries st ''twoFactorConfig'' = Some doc" "doc \<noteq> []"
    "JSON_parse pf doc = Inr config"
    using stored_config_Some [OF assms(1)] by blast
  have f: "field (lit ''encryptedRecoveryCodes'') config = Some (JArr [blob])"
    using encrypted_codes_Some [OF assms(2)] .
  show ?thesis
    using t f assms(3)
    by (simp add: verifyRecoveryCode_def verifyRecoveryCode_try_def getItemAsync_def truthy_def
                  Let_def split: prod.splits sum.splits)
qed

lemma decode_batch_Some:
  "decode_batch pf key blob = Some codes \<Longrightarrow>
     \<exists>plain. decrypt_json pf blob key = Inr plain \<and> JSON_parse pf plain = Inr (JArr (map JStr codes))"
  by (auto simp: decode_batch_def those_json_string split: sum.splits json.splits)

lemma batch_try_unknown:
  assumes "decode_batch pf key blob = Some codes" "c \<notin> set codes"
  shows "batch_try pf c key config blob st = (Inr False, st)"
proof -
  obtain plain where p: "decrypt_json pf blob key = Inr plain"
    "JSON_parse pf plain = Inr (JArr (map JStr codes))"
    using decode_batch_Some [OF assms(1)] by blast
  have "JStr c \<notin> set (map JStr codes)" using assms(2) by auto
  then have "indexOf (map JStr codes) (JStr c) = - 1"
    using indexOf_missing [of "map JStr codes" "JStr c"] by blast
  then show ?thesis using p by (simp add: batch_try_def)
qed

lemma batch_try_known:
  assumes "decode_batch pf key blob = Some codes" "c \<in> set codes"
    "encrypt pf (JSON_stringify pf (JArr (map JStr (remove1 c codes)))) key None st = (Inr blob', st1)"
    "\<not> setItem_fails pf ''twoFactorConfig''"
  shows "batch_try pf c key config blob st =
           (Inr True, st1\<lparr>entries := (entries st1)(''twoFactorConfig'' \<mapsto>
              JSON_stringify pf (set_field (lit ''encryptedRecoveryCodes'') (JArr [JStr blob']) config))\<rparr>)"
proof -
  obtain plain where p: "decrypt_json pf blob key = Inr plain"
    "JSON_parse pf plain = Inr (JArr (map JStr codes))"
    using decode_batch_Some [OF assms(1)] by blast
  have mem: "JStr c \<in> set (map JStr codes)" using assms(2) by auto
  then have found: "indexOf (map JStr codes) (JStr c) \<noteq> - 1"
    using indexOf_missing [of "map JStr codes" "JStr c"] by blast
  have "splice1 (nat (indexOf (map JStr codes) (JStr c))) (map JStr codes) =
          map JStr (remove1 c codes)"
    using splice1_indexOf [OF mem] by (simp add: remove1_map_JStr)
  then show ?thesis
    using p found assms(3,4) by (simp add: batch_try_def Let_def setItemAsync_def)
qed

lemma encrypt_Inr:
  "encrypt pf plain key so st = (Inr blob, st1) \<Longrightarrow> \<exists>s. encrypt_with pf plain key s = Inr blob"
  by (auto simp: encrypt_def split: prod.splits)

lemma encrypt_total:
  assumes "digest_sizes pf" "digest_total pf" "base64_law pf" "encryptable pf plain"
  shows "\<exists>blob st1. encrypt pf plain key so st = (Inr blob, st1)"
proof -
  obtain s st1 where s: "salt_or_fresh so st = (s, st1)" using salt_or_fresh_cases by blast
  obtain blob where "encrypt_with pf plain key s = Inr blob"
    using encrypt_with_total [OF assms] by blast
  then show ?thesis using s by (simp add: encrypt_def)
qed

lemma json_strings_wf_codes:
  "\<forall>x \<in> set codes. wellformed (map unat x) \<Longrightarrow> json_strings_wf (JArr (map JStr codes))"
  by simp

lemma json_wf_codes: "json_wf (JArr (map JStr codes))"
  by simp

lemma decode_batch_written:
  assumes "base64_law pf" "json_law pf" "json_text_law pf"
    and "\<forall>x \<in> set codes. wellformed (map unat x)"
    and "encrypt pf (JSON_stringify pf (JArr (map JStr codes))) key so st = (Inr blob, st1)"
  shows "decode_batch pf key (JStr blob) = Some codes"
proof -
  define plain where "plain = JSON_stringify pf (JArr (map JStr codes))"
  obtain s where "encrypt_with pf plain key s = Inr blob"
    using encrypt_Inr assms(5) unfolding plain_def by blast
  then have d: "decrypt pf blob key = Inr (TextDecoder_decode (TextEncoder_encode plain))"
    using decrypt_encrypt_with [OF assms(1,2)] by blast
  have "wellformed (map unat plain)" "plain \<noteq> []" "hd plain \<noteq> 0xFEFF"
    using assms(3) json_strings_wf_codes [OF assms(4)]
    unfolding json_text_law_def plain_def by blast+
  then have "TextDecoder_decode (TextEncoder_encode plain) = plain"
    by (simp add: TextDecoder_TextEncoder_wellformed)
  moreover have "JSON_parse pf plain = Inr (JArr (map JStr codes))"
    using assms(2) json_wf_codes unfolding json_law_def plain_def by blast
  moreover have "those (map json_string (map JStr codes)) = Some codes"
    by (simp only: those_json_string)
  ultimately show ?thesis
    using d by (simp add: decode_batch_def decrypt_json_def del: map_map)
qed

lemma stored_config_written:
  assumes "json_law pf" "json_text_law pf" "json_wf config"
    and "entries st ''twoFactorConfig'' = Some (JSON_stringify pf config)"
  shows "stored_config pf st = Some config"
proof -
  have "JSON_stringify pf config \<noteq> []" using assms(2) unfolding json_text_law_def by blast
  moreover have "JSON_parse pf (JSON_stringify pf config) = Inr config"
    using assms(1,3) unfolding json_law_def by blast
  ultimately show ?thesis using assms(4) by (simp add: stored_config_def)
qed

lemma encrypted_codes_set_field:
  "encrypted_codes config = Some blobs \<Longrightarrow>
     encrypted_codes (set_field (lit ''encryptedRecoveryCodes'') (JArr blobs') config) = Some blobs'"
  using field_set_field [OF encrypted_codes_Some]
  by (simp add: encrypted_codes_def)

lemma stored_batch_Some:
  "stored_batch pf mp st = Some codes \<Longrightarrow>
     \<exists>config blob. stored_config pf st = Some config \<and> encrypted_codes config = Some [blob] \<and>
        decode_batch pf (key_material mp getDeviceId ''RECOVERY_CODE_SALT'') blob = Some codes"
  by (auto simp: stored_batch_def split: option.splits list.splits)

lemma consume_unknown:
  assumes "stored_batch pf mp st = Some codes" "\<not> getItem_fails pf ''twoFactorConfig''"
    "c \<notin> set codes"
  shows "verifyRecoveryCode pf c mp st = (False, st)"
proof -
  obtain config blob where s: "stored_config pf st = Some config"
    "encrypted_codes config = Some [blob]"
    "decode_batch pf (key_material mp getDeviceId ''RECOVERY_CODE_SALT'') blob = Some codes"
    using stored_batch_Some [OF assms(1)] by blast
  show ?thesis
    using verifyRecoveryCode_batch [OF s(1,2) assms(2)] batch_try_unknown [OF s(3) assms(3)]
    by simp
qed

lemma batch_try_too_long:
  assumes "decode_batch pf key blob = Some codes" "c \<in> set codes"
    "digest_sizes pf" "digest_total pf"
    "\<not> encryptable pf (batch_text pf (remove1 c codes))"
  shows "\<exists>st1. batch_try pf c key config blob st = (Inl RangeError, st1) \<and>
           entries st1 = entries st"
proof -
  obtain plain where p: "decrypt_json pf blob key = Inr plain"
    "JSON_parse pf plain = Inr (JArr (map JStr codes))"
    using decode_batch_Some [OF assms(1)] by blast
  have mem: "JStr c \<in> set (map JStr codes)" using assms(2) by auto
  then have found: "indexOf (map JStr codes) (JStr c) \<noteq> - 1"
    using indexOf_missing [of "map JStr codes" "JStr c"] by blast
  have spliced: "splice1 (nat (indexOf (map JStr codes) (JStr c))) (map JStr codes) =
          map JStr (remove1 c codes)"
    using splice1_indexOf [OF mem] by (simp add: remove1_map_JStr)
  obtain s st1 where s: "salt_or_fresh None st = (s, st1)" using salt_or_fresh_cases by blast
  have "encrypt_with pf (batch_text pf (remove1 c codes)) key s = Inl RangeError"
    using encrypt_with_too_long [OF assms(3,4,5)] .
  then have e: "encrypt pf (JSON_stringify pf (JArr (map JStr (remove1 c codes)))) key None st
      = (Inl RangeError, st1)"
    using s by (simp add: encrypt_def batch_text_def)
  have "entries st1 = entries st" using s by (rule salt_or_fresh_entries)
  moreover have "batch_try pf c key config blob st = (Inl RangeError, st1)"
    using p found spliced e by (simp add: batch_try_def Let_def)
  ultimately show ?thesis by blast
qed

lemma consume_too_long:
  assumes "stored_batch pf mp st = Some codes" "\<not> getItem_fails pf ''twoFactorConfig''"
    and "c \<in> set codes" "digest_sizes pf" "digest_total pf"
    and "\<not> encryptable pf (batch_text pf (remove1 c codes))"
  shows "fst (verifyRecoveryCode pf c mp st) = False \<and>
         entries (snd (verifyRecoveryCode pf c mp st)) = entries st"
proof -
  obtain config blob where s: "stored_config pf st = Some config"
    "encrypted_codes config = Some [blob]"
    "decode_batch pf (key_material mp getDeviceId ''RECOVERY_CODE_SALT'') blob = Some codes"
    using stored_batch_Some [OF assms(1)] by blast
  obtain st1 where "batch_try pf c (key_material mp getDeviceId ''RECOVERY_CODE_SALT'') config blob st
      = (Inl RangeError, st1)" "entries st1 = entries st"
    using batch_try_too_long [OF s(3) assms(3,4,5,6)] by blast
  then show ?thesis
    using verifyRecoveryCode_batch [OF s(1,2) assms(2), of c mp] by simp
qed

lemma consume_known:
  assumes "stored_batch pf mp st = Some codes" "\<not> getItem_fails pf ''twoFactorConfig''"
    and "c \<in> set codes"
    and laws: "base64_law pf" "json_law pf" "json_text_law pf" "digest_sizes pf" "digest_total pf"
    and "\<not> setItem_fails pf ''twoFactorConfig''"
    and "stored_config pf st = Some config" "json_wf config"
    and "\<forall>x \<in> set codes. wellformed (map unat x)"
    and fits: "encryptable pf (batch_text pf (remove1 c codes))"
  shows "\<exists>st' config'. verifyRecoveryCode pf c mp st = (True, st') \<and>
           stored_batch pf mp st' = Some (remove1 c codes) \<and>
           stored_config pf st' = Some config' \<and> json_wf config'"
proof -
  define key where "key = key_material mp getDeviceId ''RECOVERY_CODE_SALT''"
  obtain config0 blob where s: "stored_config pf st = Some config0"
    "encrypted_codes config0 = Some [blob]" "decode_batch pf key blob = Some codes"
    using stored_batch_Some [OF assms(1)] unfolding key_def by blast
  have same: "config0 = config" using s(1) assms(10) by simp
  define plain where "plain = JSON_stringify pf (JArr (map JStr (remove1 c codes)))"
  obtain blob' st1 where e: "encrypt pf plain key None st = (Inr blob', st1)"
    using encrypt_total [OF laws(4,5,1) fits [unfolded batch_text_def, folded plain_def]] by blast
  define config' where "config' = set_field (lit ''encryptedRecoveryCodes'') (JArr [JStr blob']) config"
  define st' where "st' = st1\<lparr>entries := (entries st1)(''twoFactorConfig'' \<mapsto> JSON_stringify pf config')\<rparr>"
  have result: "verifyRecoveryCode pf c mp st = (True, st')"
    using verifyRecoveryCode_batch [OF s(1,2) assms(2), of c mp]
      batch_try_known [OF s(3) assms(3) e [unfolded plain_def] assms(9), of config0]
    unfolding key_def st'_def config'_def same by simp
  have wf': "json_wf config'"
    unfolding config'_def
    using json_wf_set_field [OF assms(11) _ encrypted_codes_Some] s(2) same by simp
  have cfg': "stored_config pf st' = Some config'"
    by (rule stored_config_written [OF laws(2,3) wf']) (simp add: st'_def)
  have codes': "encrypted_codes config' = Some [JStr blob']"
    unfolding config'_def using encrypted_codes_set_field s(2) same by blast
  have "\<forall>x \<in> set (remove1 c codes). wellformed (map unat x)"
    using assms(12) by (meson notin_set_remove1)
  then have "decode_batch pf key (JStr blob') = Some (remove1 c codes)"
    using decode_batch_written [OF laws(1,2,3) _ e [unfolded plain_def]] by blast
  then have "stored_batch pf mp st' = Some (remove1 c codes)"
    using cfg' codes' by (simp add: stored_batch_def key_def)
  then show ?thesis using result cfg' wf' by blast
qed

subsection \<open>Consuming a recovery code\<close>

lemma unat_lit: "u \<in> set (lit s) \<Longrightarrow> unat u < 256"
proof -
  assume "u \<in> set (lit s)"
  then obtain c where u: "u = of_nat (of_char c)" by (auto simp: lit_def)
  have small: "(of_char c :: nat) < 256"
    using of_char_mod_256 [of c, where 'a = nat] by (metis mod_less_divisor zero_less_numeral)
  have "unat u = (of_char c :: nat) mod 65536" unfolding u by (simp add: unat_of_nat)
  also have "\<dots> = of_char c" by (rule mod_less) (rule less_trans [OF small], simp)
  finally have "unat u = of_char c" .
  then show ?thesis using small by (simp only:)
qed

lemma wellformed_lit: "wellformed (map unat (lit s))"
proof (rule wellformed_no_surrogates, clarsimp)
  fix u assume "u \<in> set (lit s)"
  then have "unat u < 256" by (rule unat_lit)
  then show "\<not> is_high_surrogate (unat u) \<and> \<not> is_low_surrogate (unat u)"
    by (simp add: is_high_surrogate_def is_low_surrogate_def)
qed

lemma json_wf_TwoFAConfig: "json_wf (TwoFAConfig_json pf s b d)"
  by (simp add: TwoFAConfig_json_def numeric_key_def lit_def)

lemma encrypted_codes_TwoFAConfig: "encrypted_codes (TwoFAConfig_json pf s b d) = Some [JStr b]"
  by (simp add: encrypted_codes_def TwoFAConfig_json_def field_def lit_def)

lemma encrypt_given:
  "s \<noteq> [] \<Longrightarrow> encrypt pf plain key (Some s) st = (encrypt_with pf plain key s, st)"
  by (simp add: encrypt_def salt_or_fresh_given)

lemma envelope_encrypt:
  assumes "digest_sizes pf" "digest_total pf" "base64_law pf" "argument_limit pf = None"
  shows "encrypt pf plain key (Some (lit ''fixture salt'')) st = (Inr (envelope pf plain key), st)"
proof -
  obtain blob where "encrypt_with pf plain key (lit ''fixture salt'') = Inr blob"
    using encrypt_with_total [OF assms(1,2,3) encryptable_unlimited [OF assms(4)]] by blast
  moreover have "lit ''fixture salt'' \<noteq> []" by (simp add: lit_def)
  ultimately show ?thesis by (simp add: encrypt_given envelope_def)
qed

lemma batch_fixture_stored:
  assumes laws: "base64_law pf" "json_law pf" "json_text_law pf" "digest_sizes pf" "digest_total pf"
    and wf: "\<forall>x \<in> set codes. wellformed (map unat x)"
    and unlimited: "argument_limit pf = None"
  shows "stored_batch pf mp (batch_fixture pf mp codes) = Some codes"
    and "\<exists>config. stored_config pf (batch_fixture pf mp codes) = Some config \<and> json_wf config"
proof -
  define key where "key = key_material mp getDeviceId ''RECOVERY_CODE_SALT''"
  define blob where "blob = envelope pf (JSON_stringify pf (JArr (map JStr codes))) key"
  define config where "config = TwoFAConfig_json pf (lit ''encrypted secret'') blob getDeviceId"
  have "json_wf config" unfolding config_def by (rule json_wf_TwoFAConfig)
  moreover have "entries (batch_fixture pf mp codes) ''twoFactorConfig'' =
      Some (JSON_stringify pf config)"
    by (simp add: batch_fixture_def config_def blob_def key_def)
  ultimately have cfg: "stored_config pf (batch_fixture pf mp codes) = Some config"
    using stored_config_written [OF laws(2,3)] by blast
  have "decode_batch pf key (JStr blob) = Some codes"
    using decode_batch_written [OF laws(1,2,3) wf envelope_encrypt [OF laws(4,5,1) unlimited]]
    unfolding blob_def by blast
  then show "stored_batch pf mp (batch_fixture pf mp codes) = Some codes"
    using cfg by (simp add: stored_batch_def config_def encrypted_codes_TwoFAConfig key_def)
  show "\<exists>config. stored_config pf (batch_fixture pf mp codes) = Some config \<and> json_wf config"
    using cfg json_wf_TwoFAConfig config_def by blast
qed

lemma lit_ABCD_neq: "lit ''ABCD1234'' \<noteq> lit ''WXYZ5678''" "lit ''NOTACODE'' \<noteq> lit ''ABCD1234''"
  "lit ''NOTACODE'' \<noteq> lit ''WXYZ5678''"
  by (simp_all add: lit_def)

text \<open>
  C6 (as amended). Let the store hold a batch of recovery codes and let reading the store
  not fail. A candidate that is none of the codes is refused and the whole state, the
  stored batch with it, is left as it was. A candidate that is one of the codes is
  accepted (the platform's primitives being lawful, the write succeeding, the codes
  well-formed strings) and the batch persisted is the old one with the first occurrence
  of the candidate removed; a second consume of the same candidate then succeeds exactly
  when the batch held the candidate more than once, so it fails for a batch without
  repeated codes. All this when \<open>encrypt\<close> can take the text of the shortened batch; when
  it cannot (the text is longer than the engine's limit on arguments) \<open>encrypt\<close> throws,
  the candidate is refused and the store is left as it was.
\<close>

theorem verifyRecoveryCode_consumes_once:
  assumes "stored_batch pf mp st = Some codes" "\<not> getItem_fails pf ''twoFactorConfig''"
  shows "(c \<notin> set codes \<longrightarrow> verifyRecoveryCode pf c mp st = (False, st)) \<and>
         (c \<in> set codes \<and> base64_law pf \<and> json_law pf \<and> json_text_law pf \<and>
          digest_sizes pf \<and> digest_total pf \<and> \<not> setItem_fails pf ''twoFactorConfig'' \<and>
          (\<exists>config. stored_config pf st = Some config \<and> json_wf config) \<and>
          (\<forall>x \<in> set codes. wellformed (map unat x)) \<longrightarrow>
            (if encryptable pf (batch_text pf (remove1 c codes))
             then (\<exists>st'. verifyRecoveryCode pf c mp st = (True, st') \<and>
                   stored_batch pf mp st' = Some (remove1 c codes) \<and>
                   fst (verifyRecoveryCode pf c mp st') =
                     (c \<in> set (remove1 c codes) \<and>
                      encryptable pf (batch_text pf (remove1 c (remove1 c codes)))) \<and>
                   (distinct codes \<longrightarrow> verifyRecoveryCode pf c mp st' = (False, st')))
             else fst (verifyRecoveryCode pf c mp st) = False \<and>
                  entries (snd (verifyRecoveryCode pf c mp st)) = entries st))"
proof (intro conjI impI)
  assume "c \<notin> set codes"
  then show "verifyRecoveryCode pf c mp st = (False, st)"
    using consume_unknown [OF assms] by blast
next
  assume h: "c \<in> set codes \<and> base64_law pf \<and> json_law pf \<and> json_text_law pf \<and>
          digest_sizes pf \<and> digest_total pf \<and> \<not> setItem_fails pf ''twoFactorConfig'' \<and>
          (\<exists>config. stored_config pf st = Some config \<and> json_wf config) \<and>
          (\<forall>x \<in> set codes. wellformed (map unat x))"
  then obtain config where config: "stored_config pf st = Some config" "json_wf config" by blast
  from h have laws: "base64_law pf" "json_law pf" "json_text_law pf" "digest_sizes pf"
    "digest_total pf" and w: "\<not> setItem_fails pf ''twoFactorConfig''"
    and c: "c \<in> set codes" and wf: "\<forall>x \<in> set codes. wellformed (map unat x)" by blast+
  show "if encryptable pf (batch_text pf (remove1 c codes))
        then (\<exists>st'. verifyRecoveryCode pf c mp st = (True, st') \<and>
                   stored_batch pf mp st' = Some (remove1 c codes) \<and>
                   fst (verifyRecoveryCode pf c mp st') =
                     (c \<in> set (remove1 c codes) \<and>
                      encryptable pf (batch_text pf (remove1 c (remove1 c codes)))) \<and>
                   (distinct codes \<longrightarrow> verifyRecoveryCode pf c mp st' = (False, st')))
        else fst (verifyRecoveryCode pf c mp st) = False \<and>
             entries (snd (verifyRecoveryCode pf c mp st)) = entries st"
  proof (cases "encryptable pf (batch_text pf (remove1 c codes))")
    case False
    then show ?thesis
      using consume_too_long [OF assms c laws(4,5)] by simp
  next
    case True
    obtain st' config' where first: "verifyRecoveryCode pf c mp st = (True, st')"
      "stored_batch pf mp st' = Some (remove1 c codes)"
      "stored_config pf st' = Some config'" "json_wf config'"
      using consume_known [OF assms c laws w config wf True] by blast
    have wf': "\<forall>x \<in> set (remove1 c codes). wellformed (map unat x)"
      using wf by (meson notin_set_remove1)
    have second: "fst (verifyRecoveryCode pf c mp st') =
        (c \<in> set (remove1 c codes) \<and>
         encryptable pf (batch_text pf (remove1 c (remove1 c codes))))"
    proof (cases "c \<in> set (remove1 c codes)")
      case again: True
      show ?thesis
      proof (cases "encryptable pf (batch_text pf (remove1 c (remove1 c codes)))")
        case True
        then show ?thesis
          using consume_known [OF first(2) assms(2) again laws w first(3,4) wf' True] again
          by auto
      next
        case False
        then show ?thesis
          using consume_too_long [OF first(2) assms(2) again laws(4,5) False] by simp
      qed
    next
      case False
      then show ?thesis using consume_unknown [OF first(2) assms(2) False] by simp
    qed
    have "verifyRecoveryCode pf c mp st' = (False, st')" if "distinct codes"
    proof -
      have "c \<notin> set (remove1 c codes)" using that by simp
      then show ?thesis using consume_unknown [OF first(2) assms(2)] by blast
    qed
    then show ?thesis using True first(1,2) second by auto
  qed
qed

theorem verifyRecoveryCode_consumes_once_witness:
  "stored_batch mock (Some (lit ''master password''))
     (batch_fixture mock (Some (lit ''master password'')) [lit ''ABCD1234'', lit ''WXYZ5678''])
     = Some [lit ''ABCD1234'', lit ''WXYZ5678''] \<and>
   verifyRecoveryCode mock (lit ''NOTACODE'') (Some (lit ''master password''))
     (batch_fixture mock (Some (lit ''master password'')) [lit ''ABCD1234'', lit ''WXYZ5678''])
     = (False, batch_fixture mock (Some (lit ''master password'')) [lit ''ABCD1234'', lit ''WXYZ5678'']) \<and>
   (\<exists>st'. verifyRecoveryCode mock (lit ''ABCD1234'') (Some (lit ''master password''))
            (batch_fixture mock (Some (lit ''master password'')) [lit ''ABCD1234'', lit ''WXYZ5678''])
            = (True, st') \<and>
          stored_batch mock (Some (lit ''master password'')) st' = Some [lit ''WXYZ5678''] \<and>
          verifyRecoveryCode mock (lit ''ABCD1234'') (Some (lit ''master password'')) st' = (False, st'))"
proof -
  define mp where "mp = Some (lit ''master password'')"
  define codes where "codes = [lit ''ABCD1234'', lit ''WXYZ5678'']"
  define st where "st = batch_fixture mock mp codes"
  have wf: "\<forall>x \<in> set codes. wellformed (map unat x)"
    by (simp add: codes_def wellformed_lit)
  note laws = mock_base64_law mock_json_law mock_json_text_law mock_digest_sizes mock_digest_total
  have batch: "stored_batch mock mp st = Some codes"
    and config: "\<exists>config. stored_config mock st = Some config \<and> json_wf config"
    unfolding st_def by (rule batch_fixture_stored [OF laws wf mock_unlimited])+
  have io: "\<not> getItem_fails mock ''twoFactorConfig''" "\<not> setItem_fails mock ''twoFactorConfig''"
    by (simp_all add: mock_def)
  have "verifyRecoveryCode mock (lit ''NOTACODE'') mp st = (False, st)"
    using verifyRecoveryCode_consumes_once [OF batch io(1), of "lit ''NOTACODE''"]
    by (simp add: codes_def lit_ABCD_neq)
  moreover have "\<exists>st'. verifyRecoveryCode mock (lit ''ABCD1234'') mp st = (True, st') \<and>
          stored_batch mock mp st' = Some [lit ''WXYZ5678''] \<and>
          verifyRecoveryCode mock (lit ''ABCD1234'') mp st' = (False, st')"
    using verifyRecoveryCode_consumes_once [OF batch io(1), of "lit ''ABCD1234''"] laws io(2) config wf
    by (auto simp: codes_def lit_ABCD_neq mock_encryptable)
  ultimately show ?thesis using batch unfolding st_def mp_def codes_def by blast
qed

text \<open>
  C6 as stated does not hold of a batch that holds a code twice: the first consume
  removes one occurrence and the second consume of the same code is accepted again.
\<close>

theorem verifyRecoveryCode_repeated_code:
  "stored_batch mock (Some (lit ''master password''))
     (batch_fixture mock (Some (lit ''master password'')) [lit ''ABCD1234'', lit ''ABCD1234''])
     = Some [lit ''ABCD1234'', lit ''ABCD1234''] \<and>
   (\<exists>st'. verifyRecoveryCode mock (lit ''ABCD1234'') (Some (lit ''master password''))
            (batch_fixture mock (Some (lit ''master password'')) [lit ''ABCD1234'', lit ''ABCD1234''])
            = (True, st') \<and>
          fst (verifyRecoveryCode mock (lit ''ABCD1234'') (Some (lit ''master password'')) st'))"
proof -
  define mp where "mp = Some (lit ''master password'')"
  define c where "c = lit ''ABCD1234''"
  define st where "st = batch_fixture mock mp [c, c]"
  have wf: "\<forall>x \<in> set [c, c]. wellformed (map unat x)"
    by (simp add: c_def wellformed_lit)
  note laws = mock_base64_law mock_json_law mock_json_text_law mock_digest_sizes mock_digest_total
  have batch: "stored_batch mock mp st = Some [c, c]"
    unfolding st_def by (rule batch_fixture_stored [OF laws wf mock_unlimited])
  obtain config where config: "stored_config mock st = Some config" "json_wf config"
    using batch_fixture_stored(2) [OF laws wf mock_unlimited] unfolding st_def by blast
  have io: "\<not> getItem_fails mock ''twoFactorConfig''" "\<not> setItem_fails mock ''twoFactorConfig''"
    by (simp_all add: mock_def)
  obtain st' config' where first: "verifyRecoveryCode mock c mp st = (True, st')"
    "stored_batch mock mp st' = Some (remove1 c [c, c])"
    "stored_config mock st' = Some config'" "json_wf config'"
    using consume_known [OF batch io(1) _ laws io(2) config wf mock_encryptable] by auto
  have wf': "\<forall>x \<in> set (remove1 c [c, c]). wellformed (map unat x)"
    by (simp add: c_def wellformed_lit)
  have "fst (verifyRecoveryCode mock c mp st')"
    using consume_known [OF first(2) io(1) _ laws io(2) first(3,4) wf' mock_encryptable] by auto
  then show ?thesis using batch first(1) unfolding st_def mp_def c_def by blast
qed

lemma verifyRecoveryCode_legacy_path:
  assumes "stored_config pf st = Some config" "encrypted_codes config = Some blobs"
    "\<not> getItem_fails pf ''twoFactorConfig''" "length blobs \<noteq> 1"
  shows "verifyRecoveryCode pf c mp st =
           legacy_loop pf c (key_material mp getDeviceId ''RECOVERY_CODE_SALT'') config blobs 0 st"
proof -
  obtain doc where t: "entries st ''twoFactorConfig'' = Some doc" "doc \<noteq> []"
    "JSON_parse pf doc = Inr config"
    using stored_config_Some [OF assms(1)] by blast
  have f: "field (lit ''encryptedRecoveryCodes'') config = Some (JArr blobs)"
    using encrypted_codes_Some [OF assms(2)] .
  show ?thesis
    using t f assms(3,4)
    by (simp add: verifyRecoveryCode_def verifyRecoveryCode_try_def getItemAsync_def truthy_def
                  Let_def del: legacy_loop.simps split: prod.splits sum.splits)
qed

lemma legacy_loop_finds:
  assumes dec: "\<forall>k < length blobs. decrypt_json pf (blobs ! k) key = Inr (codes ! k)"
    and w: "\<not> setItem_fails pf ''twoFactorConfig''"
    and j: "j < length blobs" "codes ! j = c"
  shows "i \<le> j \<Longrightarrow> (\<forall>k. i \<le> k \<and> k < j \<longrightarrow> codes ! k \<noteq> c) \<Longrightarrow>
     legacy_loop pf c key config blobs i st =
       (True, st\<lparr>entries := (entries st)(''twoFactorConfig'' \<mapsto>
                 JSON_stringify pf (set_field (lit ''encryptedRecoveryCodes'')
                                      (JArr (splice1 j blobs)) config))\<rparr>)"
proof (induction "j - i" arbitrary: i)
  case 0
  then have "i = j" by simp
  then show ?case
    using dec j w by (subst legacy_loop.simps) (simp add: setItemAsync_def)
next
  case (Suc d)
  then have lt: "i < j" "i < length blobs" using j(1) by simp_all
  have ne: "codes ! i \<noteq> c" using Suc.prems(2) lt(1) by simp
  have di: "decrypt_json pf (blobs ! i) key = Inr (codes ! i)" using dec lt(2) by simp
  have step: "legacy_loop pf c key config blobs i st = legacy_loop pf c key config blobs (i + 1) st"
    using di ne lt(2) by (subst legacy_loop.simps) simp
  have "d = j - (i + 1)" using Suc.hyps(2) by simp
  moreover have "i + 1 \<le> j" using lt(1) by simp
  moreover have "\<forall>k. i + 1 \<le> k \<and> k < j \<longrightarrow> codes ! k \<noteq> c" using Suc.prems(2) by simp
  ultimately show ?case using Suc.hyps(1) [of "i + 1"] step by simp
qed

lemma first_index:
  "c \<in> set codes \<Longrightarrow>
     length (takeWhile (\<lambda>x. x \<noteq> c) codes) < length codes \<and>
     codes ! length (takeWhile (\<lambda>x. x \<noteq> c) codes) = c \<and>
     (\<forall>k < length (takeWhile (\<lambda>x. x \<noteq> c) codes). codes ! k \<noteq> c)"
proof (induction codes)
  case Nil
  then show ?case by simp
next
  case (Cons x xs)
  show ?case
  proof (cases "x = c")
    case True
    then show ?thesis by simp
  next
    case False
    then have "c \<in> set xs" using Cons.prems by auto
    then show ?thesis using Cons.IH False by (auto simp: nth_Cons split: nat.splits)
  qed
qed

lemma batch_try_not_a_list:
  assumes "decrypt_json pf blob key = Inr plain" "\<forall>xs. JSON_parse pf plain \<noteq> Inr (JArr xs)"
  shows "\<exists>e. batch_try pf c key config blob st = (Inl e, st)"
  using assms by (auto simp: batch_try_def split: sum.splits json.splits)

lemma json_wf_legacy_config: "json_wf (legacy_config pf mp codes)"
  by (simp add: legacy_config_def numeric_key_def lit_def)

lemma encrypted_codes_legacy_config:
  "encrypted_codes (legacy_config pf mp codes) =
     Some (map (\<lambda>code. JStr (envelope pf code
                  (key_material mp getDeviceId ''RECOVERY_CODE_SALT''))) codes)"
  by (simp add: encrypted_codes_def legacy_config_def field_def lit_def)

lemma stored_config_legacy_fixture:
  assumes "json_law pf" "json_text_law pf"
  shows "stored_config pf (legacy_fixture pf mp codes) = Some (legacy_config pf mp codes)"
  by (rule stored_config_written [OF assms json_wf_legacy_config])
     (simp add: legacy_fixture_def)

lemma decrypt_envelope:
  assumes "base64_law pf" "json_law pf" "digest_sizes pf" "digest_total pf"
    and "argument_limit pf = None"
    and "wellformed (map unat code)" "code = [] \<or> hd code \<noteq> 0xFEFF"
  shows "decrypt_json pf (JStr (envelope pf code key)) key = Inr code"
proof -
  obtain blob where b: "encrypt_with pf code key (lit ''fixture salt'') = Inr blob"
    using encrypt_with_total [OF assms(3,4,1) encryptable_unlimited [OF assms(5)]] by blast
  then have "decrypt pf blob key = Inr (TextDecoder_decode (TextEncoder_encode code))"
    using decrypt_encrypt_with [OF assms(1,2)] by blast
  then show ?thesis
    using b TextDecoder_TextEncoder_wellformed [OF assms(6,7)]
    by (simp add: decrypt_json_def envelope_def)
qed

text \<open>
  C7. A store in the legacy format holds one encrypted blob per remaining code. With two
  or more blobs (or none) \<open>verifyRecoveryCode\<close> walks them, and a candidate equal to one of
  the codes is accepted at its first occurrence, whose blob is removed from the stored
  list. With exactly one blob the test \<open>encryptedRecoveryCodes.length === 1\<close> takes the
  store for the batch format: the blob decrypts to the code itself, which is not the JSON
  text of a list, and the candidate is refused with the store unchanged. So the last code
  of a legacy store is not accepted.
\<close>

theorem verifyRecoveryCode_legacy_last_code_refused:
  assumes "stored_config pf st = Some config"
    and "encrypted_codes config = Some blobs"
    and "length blobs = length codes"
    and "\<forall>k < length blobs. decrypt_json pf (blobs ! k)
            (key_material mp getDeviceId ''RECOVERY_CODE_SALT'') = Inr (codes ! k)"
    and "c \<in> set codes"
    and "\<not> getItem_fails pf ''twoFactorConfig''"
  shows "(length codes = 1 \<and> (\<forall>xs. JSON_parse pf c \<noteq> Inr (JArr xs)) \<longrightarrow>
            verifyRecoveryCode pf c mp st = (False, st)) \<and>
         (length codes \<noteq> 1 \<and> \<not> setItem_fails pf ''twoFactorConfig'' \<longrightarrow>
            verifyRecoveryCode pf c mp st =
              (True, st\<lparr>entries := (entries st)(''twoFactorConfig'' \<mapsto>
                 JSON_stringify pf
                   (set_field (lit ''encryptedRecoveryCodes'')
                      (JArr (splice1 (length (takeWhile (\<lambda>x. x \<noteq> c) codes)) blobs))
                      config))\<rparr>))"
proof (intro conjI impI)
  define key where "key = key_material mp getDeviceId ''RECOVERY_CODE_SALT''"
  assume h: "length codes = 1 \<and> (\<forall>xs. JSON_parse pf c \<noteq> Inr (JArr xs))"
  then obtain blob where blobs: "blobs = [blob]" using assms(3) by (cases blobs) simp_all
  have "codes = [c]" using h assms(5) by (cases codes) simp_all
  then have "decrypt_json pf blob key = Inr c" using assms(4) blobs by (simp add: key_def)
  then obtain e where "batch_try pf c key config blob st = (Inl e, st)"
    using batch_try_not_a_list h by blast
  then show "verifyRecoveryCode pf c mp st = (False, st)"
    using verifyRecoveryCode_batch [OF assms(1) assms(2) [unfolded blobs] assms(6), of c mp]
    by (simp add: key_def)
next
  define j where "j = length (takeWhile (\<lambda>x. x \<noteq> c) codes)"
  assume h: "length codes \<noteq> 1 \<and> \<not> setItem_fails pf ''twoFactorConfig''"
  have j: "j < length blobs" "codes ! j = c" "\<forall>k. 0 \<le> k \<and> k < j \<longrightarrow> codes ! k \<noteq> c"
    using first_index [OF assms(5)] assms(3) unfolding j_def by simp_all
  have "length blobs \<noteq> 1" using h assms(3) by simp
  then show "verifyRecoveryCode pf c mp st =
              (True, st\<lparr>entries := (entries st)(''twoFactorConfig'' \<mapsto>
                 JSON_stringify pf
                   (set_field (lit ''encryptedRecoveryCodes'')
                      (JArr (splice1 (length (takeWhile (\<lambda>x. x \<noteq> c) codes)) blobs))
                      config))\<rparr>)"
    using verifyRecoveryCode_legacy_path [OF assms(1,2,6), of c mp]
      legacy_loop_finds [OF assms(4) _ j(1,2) _ j(3)] h
    unfolding j_def by simp
qed

theorem verifyRecoveryCode_legacy_last_code_refused_witness:
  "verifyRecoveryCode mock (lit ''ABCD1234'') (Some (lit ''master password''))
     (legacy_fixture mock (Some (lit ''master password'')) [lit ''ABCD1234''])
     = (False, legacy_fixture mock (Some (lit ''master password'')) [lit ''ABCD1234'']) \<and>
   fst (verifyRecoveryCode mock (lit ''ABCD1234'') (Some (lit ''master password''))
     (legacy_fixture mock (Some (lit ''master password'')) [lit ''ABCD1234'', lit ''WXYZ5678'']))"
proof -
  define mp where "mp = Some (lit ''master password'')"
  define key where "key = key_material mp getDeviceId ''RECOVERY_CODE_SALT''"
  note laws = mock_base64_law mock_json_law mock_digest_sizes mock_digest_total
  have dec: "decrypt_json mock (JStr (envelope mock (lit s) key)) key = Inr (lit s)"
    if "s \<noteq> []" "hd (lit s) \<noteq> 0xFEFF" for s
    using decrypt_envelope [OF laws mock_unlimited wellformed_lit] that by blast
  have a: "decrypt_json mock (JStr (envelope mock (lit ''ABCD1234'') key)) key = Inr (lit ''ABCD1234'')"
    by (rule dec) (simp_all add: lit_def)
  have b: "decrypt_json mock (JStr (envelope mock (lit ''WXYZ5678'') key)) key = Inr (lit ''WXYZ5678'')"
    by (rule dec) (simp_all add: lit_def)
  have parse: "\<forall>xs. JSON_parse mock (lit ''ABCD1234'') \<noteq> Inr (JArr xs)"
    by (simp add: mock_def mock_parse_def lit_def)
  have io: "\<not> getItem_fails mock ''twoFactorConfig''" "\<not> setItem_fails mock ''twoFactorConfig''"
    by (simp_all add: mock_def)
  note cfg = stored_config_legacy_fixture [OF mock_json_law mock_json_text_law, of mp]
  have one: "verifyRecoveryCode mock (lit ''ABCD1234'') mp (legacy_fixture mock mp [lit ''ABCD1234''])
     = (False, legacy_fixture mock mp [lit ''ABCD1234''])"
    using verifyRecoveryCode_legacy_last_code_refused
            [where pf = mock and mp = mp and c = "lit ''ABCD1234''"
               and codes = "[lit ''ABCD1234'']"
               and st = "legacy_fixture mock mp [lit ''ABCD1234'']"
               and config = "legacy_config mock mp [lit ''ABCD1234'']"
               and blobs = "[JStr (envelope mock (lit ''ABCD1234'') key)]"]
          cfg [of "[lit ''ABCD1234'']"] encrypted_codes_legacy_config [of mock mp "[lit ''ABCD1234'']"]
          a parse io
    by (simp add: key_def)
  have two: "fst (verifyRecoveryCode mock (lit ''ABCD1234'') mp
                    (legacy_fixture mock mp [lit ''ABCD1234'', lit ''WXYZ5678'']))"
    using verifyRecoveryCode_legacy_last_code_refused
            [where pf = mock and mp = mp and c = "lit ''ABCD1234''"
               and codes = "[lit ''ABCD1234'', lit ''WXYZ5678'']"
               and st = "legacy_fixture mock mp [lit ''ABCD1234'', lit ''WXYZ5678'']"
               and config = "legacy_config mock mp [lit ''ABCD1234'', lit ''WXYZ5678'']"
               and blobs = "[JStr (envelope mock (lit ''ABCD1234'') key),
                             JStr (envelope mock (lit ''WXYZ5678'') key)]"]
          cfg [of "[lit ''ABCD1234'', lit ''WXYZ5678'']"]
          encrypted_codes_legacy_config [of mock mp "[lit ''ABCD1234'', lit ''WXYZ5678'']"]
          a b io
    by (simp add: key_def nth_Cons less_Suc_eq split: nat.splits)
  show ?thesis using one two unfolding mp_def by simp
qed

subsection \<open>After the set-up screens\<close>

lemma verifyTOTPCode_current:
  assumes "digest_sizes pf" "digest_total pf" "generateTOTP pf sec None = Inr code"
  shows "verifyTOTPCode pf code sec"
proof -
  define full where "full = fullConfig sec None"
  define cur where "cur = currentTimeStep pf full"
  have b: "generateTOTPForTimeStep pf full cur = Inr code"
    using assms(3) by (simp add: generateTOTP_def Let_def full_def cur_def)
  obtain ca where a: "generateTOTPForTimeStep pf full (cur - 1) = Inr ca"
    using generateTOTPForTimeStep_total [OF assms(1,2)] by blast
  obtain cc where c: "generateTOTPForTimeStep pf full (cur + 1) = Inr cc"
    using generateTOTPForTimeStep_total [OF assms(1,2)] by blast
  have "verifyTOTP pf code sec None = verify_window pf full code [cur - 1, cur, cur + 1]"
    by (simp add: verifyTOTP_def Let_def window_steps full_def cur_def del: verify_window.simps)
  then show ?thesis
    using verify_window_three [OF a b c, of code]
    by (simp add: verifyTOTPCode_def del: verify_window.simps)
qed

lemma generateSecret_alphabet:
  "generateSecret n st = (s, st') \<Longrightarrow> u \<in> set s \<Longrightarrow> unat u < 256"
proof -
  assume "generateSecret n st = (s, st')" "u \<in> set s"
  then obtain b :: byte where "u = base32_alphabet ! (unat b mod length base32_alphabet)"
    by (auto simp: generateSecret_def getRandomValues_def)
  moreover have "unat b mod length base32_alphabet < length base32_alphabet"
    by (simp add: base32_alphabet_def lit_def)
  ultimately have "u \<in> set (lit ''ABCDEFGHIJKLMNOPQRSTUVWXYZ234567'')"
    unfolding base32_alphabet_def using nth_mem by metis
  then show ?thesis by (rule unat_lit)
qed

lemma generateSecret_wellformed:
  assumes "generateSecret n st = (s, st')"
  shows "wellformed (map unat s)" "s = [] \<or> hd s \<noteq> 0xFEFF"
proof -
  have small: "unat u < 256" if "u \<in> set s" for u
    using generateSecret_alphabet [OF assms that] .
  show "wellformed (map unat s)"
  proof (rule wellformed_no_surrogates, clarsimp)
    fix u assume "u \<in> set s"
    then show "\<not> is_high_surrogate (unat u) \<and> \<not> is_low_surrogate (unat u)"
      using small [of u] by (simp add: is_high_surrogate_def is_low_surrogate_def)
  qed
  show "s = [] \<or> hd s \<noteq> 0xFEFF"
  proof (cases s)
    case Nil
    then show ?thesis by simp
  next
    case (Cons u us)
    then have "unat u < 256" using small [of u] by simp
    then have "u \<noteq> 0xFEFF" by auto
    then show ?thesis using Cons by simp
  qed
qed

lemma setup2FA_Inr:
  assumes "setup2FA pf pw dev st = (Inr r, st')"
  shows "\<exists>st1 st2 es erc. generateSecret 32 st = (manualEntryKey r, st1) \<and>
           encrypt pf (manualEntryKey r) (key_material (Some pw) dev ''TOTP_SECRET_SALT'') None st1
             = (Inr es, st2) \<and>
           config_json r = TwoFAConfig_json pf es erc dev"
  using assms
  by (auto simp: setup2FA_def setup2FA_try_def setItemAsync_def Let_def
           split: prod.splits sum.splits if_splits)

lemma field_encryptedSecret:
  "field (lit ''encryptedSecret'') (TwoFAConfig_json pf es erc dev) = Some (JStr es)"
  "TwoFAConfig_json pf es erc dev \<noteq> JNull"
  by (simp_all add: field_def TwoFAConfig_json_def lit_def)

lemma verify2FA_after_setup2FA:
  assumes laws: "base64_law pf" "json_law pf" "json_text_law pf" "digest_sizes pf" "digest_total pf"
    and enrol: "setup2FA pf pw getDeviceId st = (Inr r, st')"
    and io: "\<not> getItem_fails pf ''twoFactorConfig''"
    and tok: "generateTOTP pf (manualEntryKey r) None = Inr code"
  shows "verify2FA pf code (Some pw) st'"
proof -
  define sec where "sec = manualEntryKey r"
  define key where "key = key_material (Some pw) getDeviceId ''TOTP_SECRET_SALT''"
  obtain st1 st2 es erc where s: "generateSecret 32 st = (sec, st1)"
    "encrypt pf sec key None st1 = (Inr es, st2)"
    "config_json r = TwoFAConfig_json pf es erc getDeviceId"
    using setup2FA_Inr [OF enrol] unfolding sec_def key_def by blast
  have wf: "json_wf (config_json r)" unfolding s(3) by (rule json_wf_TwoFAConfig)
  have "entries st' ''twoFactorConfig'' = Some (JSON_stringify pf (config_json r))"
    using setup2FA_entries [OF enrol] by simp
  then have "stored_config pf st' = Some (config_json r)"
    using stored_config_written [OF laws(2,3) wf] by blast
  then obtain doc where doc: "entries st' ''twoFactorConfig'' = Some doc" "doc \<noteq> []"
    "JSON_parse pf doc = Inr (config_json r)"
    using stored_config_Some by blast
  obtain sa where "encrypt_with pf sec key sa = Inr es"
    using encrypt_Inr [OF s(2)] by blast
  then have "decrypt pf es key = Inr (TextDecoder_decode (TextEncoder_encode sec))"
    using decrypt_encrypt_with [OF laws(1,2)] by blast
  then have dec: "decrypt pf es key = Inr sec"
    using generateSecret_wellformed [OF s(1)] by (simp add: TextDecoder_TextEncoder_wellformed)
  have "verifyTOTPCode pf code sec"
    using verifyTOTPCode_current [OF laws(4,5)] tok unfolding sec_def by blast
  then show ?thesis
    using doc io dec
    by (simp add: verify2FA_def verify2FA_try_def getItemAsync_def truthy_def s(3)
                  field_encryptedSecret ToString_opt_def key_def)
qed

lemma generateRandomString_length: "generateRandomString n st = (s, st') \<Longrightarrow> length s = n"
  by (auto simp: generateRandomString_def getRandomValues_def)

lemma fresh_salt_nonempty: "salt_or_fresh None st = (s, st') \<Longrightarrow> s \<noteq> []"
  using generateRandomString_length [of 32 st s st']
  by (auto simp: salt_or_fresh_def generateSalt_def)

lemma verifyMasterPassword_stored:
  assumes "digest_sizes pf" "hashPassword pf pw None st = (Inr r, st')"
    and "entries st1 ''masterPasswordHash'' = Some (hash r)"
    and "entries st1 ''passwordSalt'' = Some (hash_salt r)"
    and "\<not> getItem_fails pf ''masterPasswordHash''" "\<not> getItem_fails pf ''passwordSalt''"
  shows "fst (verifyMasterPassword pf pw st1)"
proof -
  obtain s where s: "salt_or_fresh None st = (s, st')"
    and k: "deriveKey pf pw s 10000 64 = Inr (hash r)" and hs: "hash_salt r = s"
    using assms(2) by (auto simp: hashPassword_def split: prod.splits sum.splits)
  have "s \<noteq> []" using fresh_salt_nonempty [OF s] .
  moreover have "length (hash r) = 2 * min 64 32"
    using deriveKey_length [OF assms(1) _ k] by simp
  then have "hash r \<noteq> []" by auto
  ultimately show ?thesis
    using assms(3-6) k hs by (simp add: verifyMasterPassword_iff)
qed

lemma setup2FA_total:
  assumes "digest_sizes pf" "digest_total pf" "base64_law pf" "argument_limit pf = None"
    and "\<not> setItem_fails pf ''twoFactorConfig''"
    and "\<forall>s. \<exists>e. encodeURIComponent pf s = Inr e"
  shows "\<exists>r st'. setup2FA pf pw dev st = (Inr r, st')"
proof -
  obtain sec st1 where a: "generateSecret 32 st = (sec, st1)" by (cases "generateSecret 32 st")
  obtain es st2 where b: "encrypt pf sec (key_material (Some pw) dev ''TOTP_SECRET_SALT'') None st1
      = (Inr es, st2)"
    using encrypt_total [OF assms(1,2,3) encryptable_unlimited [OF assms(4)]] by blast
  obtain codes st3 where c: "generateRecoveryCodes pf 8 st2 = (codes, st3)"
    by (cases "generateRecoveryCodes pf 8 st2")
  obtain erc st4 where d: "encrypt pf (JSON_stringify pf (JArr (map JStr codes)))
      (key_material (Some pw) dev ''RECOVERY_CODE_SALT'') None st3 = (Inr erc, st4)"
    using encrypt_total [OF assms(1,2,3) encryptable_unlimited [OF assms(4)]] by blast
  obtain qr where q: "generateQRCodeData pf sec (lit ''SecureVault'') (lit ''User'') None = Inr qr"
  proof -
    obtain e1 where "encodeURIComponent pf (lit ''SecureVault'') = Inr e1" using assms(6) by blast
    moreover obtain e2 where "encodeURIComponent pf (lit ''User'') = Inr e2" using assms(6) by blast
    ultimately show ?thesis using that by (simp add: generateQRCodeData_def Let_def)
  qed
  show ?thesis
    using a b c d q assms(5)
    by (simp add: setup2FA_def setup2FA_try_def setItemAsync_def Let_def del: generateRecoveryCodes.simps)
qed

lemma getAuthenticationSettings_readable:
  "settings_readable pf \<Longrightarrow> getAuthenticationSettings pf st = stored_settings st"
  by (simp add: settings_readable_def getAuthenticationSettings_def
                getAuthenticationSettings_try_def getItemAsync_def stored_settings_def)

lemma getAuthenticationSettings_unreadable:
  "\<not> settings_readable pf \<Longrightarrow>
     getAuthenticationSettings pf st =
       \<lparr>hasPassword = False, biometricEnabled = False, twoFactorEnabled = False\<rparr>"
  by (auto simp: settings_readable_def getAuthenticationSettings_def
                 getAuthenticationSettings_try_def getItemAsync_def)

lemma enrolled_facts:
  assumes laws: "base64_law pf" "json_law pf" "json_text_law pf" "digest_sizes pf" "digest_total pf"
    and unlimited: "argument_limit pf = None"
    and io: "\<forall>k. \<not> setItem_fails pf k" "\<forall>k. \<not> getItem_fails pf k"
    and uri: "\<forall>s. \<exists>e. encodeURIComponent pf s = Inr e"
  shows "stored_settings (snd (enrolled pf pw)) =
           \<lparr>hasPassword = True, biometricEnabled = False, twoFactorEnabled = True\<rparr>"
    and "fst (verifyMasterPassword pf pw (snd (enrolled pf pw)))"
    and "verify2FA pf (current_code pf pw) (Some pw) (snd (enrolled pf pw))"
proof -
  obtain st0 where st0: "storeMasterPassword pf pw empty_state = (Inr (), st0)"
    using storeMasterPassword_total [OF laws(4,5) io(1)] by blast
  obtain r st where en: "setup2FA pf pw getDeviceId st0 = (Inr r, st)"
    using setup2FA_total [OF laws(4,5,1) unlimited _ uri] io(1) by blast
  have enrolled: "enrolled pf pw = (Inr r, st)" using st0 en by (simp add: enrolled_def)
  obtain code where code: "generateTOTP pf (manualEntryKey r) None = Inr code"
    using generateTOTP_total [OF laws(4,5)] by blast
  have cur: "current_code pf pw = code" using enrolled code by (simp add: current_code_def)
  obtain h st0' where h: "hashPassword pf pw None empty_state = (Inr h, st0')"
    "entries st0 = (entries empty_state)(''masterPasswordHash'' \<mapsto> hash h,
                                       ''passwordSalt'' \<mapsto> hash_salt h,
                                       ''hasSetupPassword'' \<mapsto> lit ''true'')"
    using storeMasterPassword_entries [OF st0] by blast
  have e: "entries st = (entries st0)(''twoFactorConfig'' \<mapsto> JSON_stringify pf (config_json r))"
    using setup2FA_entries [OF en] .
  have ne: "JSON_stringify pf (config_json r) \<noteq> []"
    using laws(3) unfolding json_text_law_def by blast
  show "stored_settings (snd (enrolled pf pw)) =
           \<lparr>hasPassword = True, biometricEnabled = False, twoFactorEnabled = True\<rparr>"
    using ne by (simp add: enrolled stored_settings_def e h(2) empty_state_def truthy_def)
  show "fst (verifyMasterPassword pf pw (snd (enrolled pf pw)))"
    unfolding enrolled snd_conv
    by (rule verifyMasterPassword_stored [OF laws(4) h(1)]) (simp_all add: e h(2) io(2))
  show "verify2FA pf (current_code pf pw) (Some pw) (snd (enrolled pf pw))"
    unfolding enrolled snd_conv cur
    using verify2FA_after_setup2FA [OF laws en _ code] io(2) by blast
qed

lemma mock_io:
  "\<forall>k. \<not> setItem_fails mock k" "\<forall>k. \<not> getItem_fails mock k"
  "\<forall>s. \<exists>e. encodeURIComponent mock s = Inr e"
  by (simp_all add: mock_def)

lemma mock_readable: "settings_readable mock"
  by (simp add: settings_readable_def mock_def)

lemmas mock_enrolled =
  enrolled_facts [OF mock_base64_law mock_json_law mock_json_text_law mock_digest_sizes
                     mock_digest_total mock_unlimited mock_io]

subsection \<open>authenticateUser\<close>

lemma padStart_nonempty: "0 < n \<Longrightarrow> padStart n c s \<noteq> []"
  by (cases s) (simp_all add: padStart_def)

lemma generateTOTPForTimeStep_nonempty:
  "generateTOTPForTimeStep pf (fullConfig sec None) t = Inr code \<Longrightarrow> code \<noteq> []"
  by (auto simp: generateTOTPForTimeStep_def Let_def fullConfig_def number_or_def
                 DEFAULT_DIGITS_def padStart_nonempty split: sum.splits)

lemma verify_window_nonempty:
  "verify_window pf (fullConfig sec None) token ts = Inr r \<Longrightarrow> valid r \<Longrightarrow> token \<noteq> []"
proof (induction ts)
  case Nil
  then show ?case by auto
next
  case (Cons t ts)
  then show ?case
    by (auto simp: constantTimeCompare_iff split: sum.splits if_splits
             dest: generateTOTPForTimeStep_nonempty)
qed

lemma verify2FA_nonempty: "verify2FA pf code mp st \<Longrightarrow> code \<noteq> []"
  by (auto simp: verify2FA_def verify2FA_try_def verifyTOTPCode_def verifyTOTP_def Let_def
           split: sum.splits if_splits dest: verify_window_nonempty)




text \<open>
  C9 (as amended). Let the stored settings say that a password is set up, biometrics are
  disabled and 2FA is enabled, and let \<open>authenticateUser\<close> be called with a master password
  that \<open>verifyMasterPassword\<close> accepts and a TOTP code that \<open>verify2FA\<close> accepts. When the
  password is not the empty string the call returns \<open>success = true\<close>, with \<open>passwordValid\<close>
  and \<open>twoFactorValid\<close> set and no error message. When it is the empty string (which
  \<open>storeMasterPassword\<close> accepts) the test \<open>if (credentials.password)\<close> skips the password
  step, and the call returns \<open>success = false\<close>. This is for settings that can be read; when
  a read of the settings rejects, nothing is required and the call succeeds.
\<close>

theorem authenticateUser_password_and_totp:
  assumes "stored_settings st =
             \<lparr>hasPassword = True, biometricEnabled = False, twoFactorEnabled = True\<rparr>"
    and "fst (verifyMasterPassword pf pw st)"
    and "verify2FA pf code (Some pw) st"
  shows "fst (authenticateUser pf \<lparr>password = Some pw, requestBiometric = rb,
                                    twoFactorCode = Some code, recoveryCode = rc\<rparr> st) =
           (if settings_readable pf
            then \<lparr>passwordValid = (pw \<noteq> []), biometricValid = False, twoFactorValid = True,
                  success = (pw \<noteq> []), error_message = None\<rparr>
            else \<lparr>passwordValid = (pw \<noteq> []), biometricValid = False, twoFactorValid = False,
                  success = True, error_message = None\<rparr>)"
proof -
  have code: "code \<noteq> []" using assms(3) by (rule verify2FA_nonempty)
  have pair: "verifyMasterPassword pf pw st = (True, st)"
    using verifyMasterPassword_pair [of pf pw st] assms(2) by simp
  show ?thesis
  proof (cases "settings_readable pf")
    case True
    then have "getAuthenticationSettings pf st =
        \<lparr>hasPassword = True, biometricEnabled = False, twoFactorEnabled = True\<rparr>"
      using getAuthenticationSettings_readable assms(1) by simp
    then show ?thesis
      using True assms(3) code pair
      by (cases "pw = []")
         (simp_all add: authenticateUser_def step_2FA_def truthy_def Let_def validate_required)
  next
    case False
    then have "getAuthenticationSettings pf st =
        \<lparr>hasPassword = False, biometricEnabled = False, twoFactorEnabled = False\<rparr>"
      by (rule getAuthenticationSettings_unreadable)
    then show ?thesis
      using False pair
      by (simp add: authenticateUser_def truthy_def Let_def validate_required)
  qed
qed

theorem authenticateUser_password_and_totp_witness:
  "fst (authenticateUser mock
       \<lparr>password = Some (lit ''correct horse''), requestBiometric = False,
        twoFactorCode = Some (current_code mock (lit ''correct horse'')), recoveryCode = None\<rparr>
       (snd (enrolled mock (lit ''correct horse'')))) =
     \<lparr>passwordValid = True, biometricValid = False, twoFactorValid = True,
      success = True, error_message = None\<rparr>"
proof -
  have "lit ''correct horse'' \<noteq> []" by (simp add: lit_def)
  then show ?thesis
    using authenticateUser_password_and_totp
            [OF mock_enrolled(1) mock_enrolled(2) mock_enrolled(3),
             of "lit ''correct horse''" False None]
          mock_readable
    by simp
qed

text \<open>
  C9 as stated does not hold for the empty master password: \<open>storeMasterPassword\<close> stores
  it and \<open>setup2FA\<close> enrols 2FA with it, \<open>verifyMasterPassword\<close> accepts it and \<open>verify2FA\<close>
  accepts the current code, and \<open>authenticateUser\<close> called with both returns
  \<open>success = false\<close>.
\<close>

theorem authenticateUser_empty_password:
  "stored_settings (snd (enrolled mock [])) =
     \<lparr>hasPassword = True, biometricEnabled = False, twoFactorEnabled = True\<rparr> \<and>
   fst (verifyMasterPassword mock [] (snd (enrolled mock []))) \<and>
   verify2FA mock (current_code mock []) (Some []) (snd (enrolled mock [])) \<and>
   fst (authenticateUser mock
          \<lparr>password = Some [], requestBiometric = False,
           twoFactorCode = Some (current_code mock []), recoveryCode = None\<rparr>
          (snd (enrolled mock []))) =
     \<lparr>passwordValid = False, biometricValid = False, twoFactorValid = True,
      success = False, error_message = None\<rparr>"
proof -
  define st where "st = snd (enrolled mock [])"
  define code where "code = current_code mock []"
  note facts = mock_enrolled [of "[]", folded st_def code_def]
  have settings: "getAuthenticationSettings mock st =
      \<lparr>hasPassword = True, biometricEnabled = False, twoFactorEnabled = True\<rparr>"
    using getAuthenticationSettings_readable [OF mock_readable] facts(1) by simp
  have code: "code \<noteq> []" using facts(3) by (rule verify2FA_nonempty)
  have "fst (authenticateUser mock
          \<lparr>password = Some [], requestBiometric = False,
           twoFactorCode = Some code, recoveryCode = None\<rparr> st) =
     \<lparr>passwordValid = False, biometricValid = False, twoFactorValid = True,
      success = False, error_message = None\<rparr>"
    using settings facts(3) code
    by (simp add: authenticateUser_def step_2FA_def truthy_def Let_def validate_required)
  then show ?thesis using facts unfolding st_def code_def by simp
qed

end
